(* ===== verification/Prelude.thy ===== *)
theory Prelude
  imports Main "HOL-Library.Word"
begin

text \<open>
  Shared vocabulary of the development: the machine types of the Rust code
  (\<open>u32\<close>, bytes), the error type that stands for \<open>anyhow::Error\<close>, the
  state-and-error combinator that models Rust's \<open>?\<close> operator on an explicit
  world state, and generic lemmas on lists split at a separator character that
  the key renderings (cache keys, object paths) share.
\<close>

named_theorems res_simps "evaluation rules of the state-and-error combinators"
named_theorems sep_simps "splitting strings at a separator that the parts do not contain"

type_synonym u32 = "32 word"
type_synonym byte = "8 word"
type_synonym bytes = "byte list"

text \<open>
  \<open>anyhow::Error\<close> values, by origin. The messages are kept where the source
  writes one (\<open>anyhow!("Bucket does not exist.")\<close>).
\<close>

datatype error =
    AcquireError
  | PipelineError string
  | StorageError string

text \<open>
  A fallible step on a state \<open>'s\<close>: the result (\<open>Inl\<close> an error, \<open>Inr\<close> a value)
  and the state after the step. Effects done before an error stay in the state,
  as they do in the program.
\<close>

type_synonym ('s, 'a) res = "(error + 'a) \<times> 's"

definition qbind :: "('s, 'a) res \<Rightarrow> ('a \<Rightarrow> 's \<Rightarrow> ('s, 'b) res) \<Rightarrow> ('s, 'b) res" where
  "qbind r f = (case r of (Inl e, s) \<Rightarrow> (Inl e, s) | (Inr a, s) \<Rightarrow> f a s)"

lemma qbind_Inl [simp, res_simps]: "qbind (Inl e, s) f = (Inl e, s)"
  by (simp add: qbind_def)

lemma qbind_Inr [simp, res_simps]: "qbind (Inr a, s) f = f a s"
  by (simp add: qbind_def)

lemma qbind_cases:
  assumes "qbind r f = (x, s')"
  obtains e s where "r = (Inl e, s)" "x = Inl e" "s' = s"
    | a s where "r = (Inr a, s)" "f a s = (x, s')"
  using assms by (cases r; cases "fst r") (auto simp: qbind_def)

lemma qbind_Inr_iff:
  "qbind r f = (Inr b, s') \<longleftrightarrow> (\<exists>a s. r = (Inr a, s) \<and> f a s = (Inr b, s'))"
  by (cases r; cases "fst r") (auto simp: qbind_def)

subsection \<open>Strings split at a separator\<close>

lemma append_sep_eq [sep_simps]:
  assumes "c \<notin> set xs" and "c \<notin> set ys"
  shows "xs @ c # r = ys @ c # r' \<longleftrightarrow> xs = ys \<and> r = r'"
  using assms
proof (induction xs arbitrary: ys)
  case Nil
  then show ?case by (cases ys) auto
next
  case (Cons x xs)
  then show ?case by (cases ys) auto
qed

lemma append_last_sep_eq [sep_simps]:
  assumes "c \<notin> set e" and "c \<notin> set e'"
  shows "i @ c # e = i' @ c # e' \<longleftrightarrow> i = i' \<and> e = e'"
proof -
  have "i @ c # e = i' @ c # e' \<longleftrightarrow> rev e @ c # rev i = rev e' @ c # rev i'"
    by (metis rev.simps(2) rev_append rev_rev_ident append_assoc append_Cons append_Nil)
  also have "\<dots> \<longleftrightarrow> rev e = rev e' \<and> rev i = rev i'"
    using assms by (simp add: append_sep_eq)
  finally show ?thesis by auto
qed

end
