(* ===== verification/Utils.thy ===== *)
theory Utils
  imports Prelude
begin

text \<open>
  The identity and hashing helpers (\<open>src/src/utils.rs\<close>, and the checksum of
  \<open>BucketController::upload\<close> in \<open>src/src/controller.rs\<close>).
  \<^item> CRC-32 as \<open>crc32fast\<close> computes it (reflected polynomial \<open>0xEDB88320\<close>,
    register inverted before and after), bit by bit; the streaming \<open>Hasher\<close>
    with its \<open>u32\<close> state, \<open>update\<close> and \<open>finalize\<close>;
  \<^item> \<open>crc_hash\<close>: Rust's \<open>Hash\<close> for strings fed into that hasher (the bytes of the
    string, then the byte \<open>0xff\<close>); an Isabelle \<open>char\<close> is a byte, so a
    string of the model is the sequence of UTF-8 bytes of the Rust \<open>str\<close> and
    \<open>str_bytes\<close> (\<open>as_bytes\<close>) reads them unchanged;
  \<^item> \<open>sha256_hash\<close>: the lowercase hex encoding (\<open>hex::encode\<close>) of a digest. The
    SHA-256 compression itself is a library the code only calls; it is a
    parameter \<open>D\<close> of the model.
\<close>

unbundle bit_operations_syntax

subsection \<open>CRC-32\<close>

definition crc32_poly :: u32 where
  "crc32_poly = 0xEDB88320"

definition crc32_bit :: "u32 \<Rightarrow> u32" where
  "crc32_bit c = (if c AND 1 = 1 then drop_bit 1 c XOR crc32_poly else drop_bit 1 c)"

definition crc32_byte :: "u32 \<Rightarrow> byte \<Rightarrow> u32" where
  "crc32_byte c b = (crc32_bit ^^ 8) (c XOR ucast b)"

definition crc32_update :: "u32 \<Rightarrow> bytes \<Rightarrow> u32" where
  "crc32_update c bs = foldl crc32_byte c bs"

text \<open>
  \<open>crc32fast::Hasher\<close>: the state is the finished CRC of what was written so far;
  \<open>update\<close> inverts it, runs the register over the new bytes and inverts again.
\<close>

definition hasher_default :: u32 where
  "hasher_default = 0"

definition hasher_update :: "u32 \<Rightarrow> bytes \<Rightarrow> u32" where
  "hasher_update st bs = NOT (crc32_update (NOT st) bs)"

definition hasher_finalize :: "u32 \<Rightarrow> u32" where
  "hasher_finalize st = st"

definition crc32_hash :: "bytes \<Rightarrow> u32" where
  "crc32_hash bs = hasher_finalize (hasher_update hasher_default bs)"

subsection \<open>Hashing a string with \<open>crc_hash\<close>\<close>

definition str_bytes :: "string \<Rightarrow> bytes" where
  "str_bytes s = map of_char s"

text \<open>\<open>impl Hash for str\<close>: \<open>state.write(s.as_bytes()); state.write_u8(0xff)\<close>.\<close>

definition hash_str :: "u32 \<Rightarrow> string \<Rightarrow> u32" where
  "hash_str st s = hasher_update (hasher_update st (str_bytes s)) [0xFF]"

definition crc_hash :: "string \<Rightarrow> u32" where
  "crc_hash s = hasher_finalize (hash_str hasher_default s)"

subsection \<open>Hex encoding and \<open>sha256_hash\<close>\<close>

definition hex_chars :: string where
  "hex_chars = ''0123456789abcdef''"

definition hex_encode :: "bytes \<Rightarrow> string" where
  "hex_encode bs = concat (map (\<lambda>b. [hex_chars ! (unat b div 16), hex_chars ! (unat b mod 16)]) bs)"

definition sha256_hash :: "(bytes \<Rightarrow> bytes) \<Rightarrow> bytes \<Rightarrow> string" where
  "sha256_hash D v = hex_encode (D v)"

subsection \<open>The streaming hasher\<close>

lemma crc32_update_append: "crc32_update c (a @ b) = crc32_update (crc32_update c a) b"
  by (simp add: crc32_update_def)

lemma hasher_update_append: "hasher_update (hasher_update st a) b = hasher_update st (a @ b)"
  by (simp add: hasher_update_def crc32_update_append)

end
