(* ===== verification/Config.thy ===== *)
theory Config
  imports Utils
begin

text \<open>
  The bucket configuration the controller reads (\<open>crate::config\<close>, which is not
  among the sources: it is modelled from the specification, section 3) and the
  processing modes of \<open>crate::pipelines\<close>:
  \<^item> \<open>image_kind\<close>, the closed set of encodings with their file extension,
    content type and \<open>variants()\<close>; an instance of \<open>enum\<close>, so that the
    library's finite-type automation applies;
  \<^item> \<open>processing_mode\<close> (\<open>ProcessingMode::{Realtime, Aot, Jit}\<close>);
  \<^item> \<open>bucket_config\<close> with the fields the controller uses, and
    \<open>sizing_preset_ids\<close>, the sizing ids a bucket registers (\<open>0\<close> for the
    original, \<open>crc_hash\<close> of each preset name).
\<close>

datatype image_kind = Png | Jpeg | Gif | Webp

definition as_file_extension :: "image_kind \<Rightarrow> string" where
  "as_file_extension k =
     (case k of Png \<Rightarrow> ''png'' | Jpeg \<Rightarrow> ''jpeg'' | Gif \<Rightarrow> ''gif'' | Webp \<Rightarrow> ''webp'')"

definition as_content_type :: "image_kind \<Rightarrow> string" where
  "as_content_type k = ''image/'' @ as_file_extension k"

definition variants :: "image_kind list" where
  "variants = [Png, Jpeg, Gif, Webp]"

instantiation image_kind :: enum
begin

definition enum_image_kind :: "image_kind list" where
  "enum_image_kind = variants"

definition enum_all_image_kind :: "(image_kind \<Rightarrow> bool) \<Rightarrow> bool" where
  "enum_all_image_kind P = list_all P variants"

definition enum_ex_image_kind :: "(image_kind \<Rightarrow> bool) \<Rightarrow> bool" where
  "enum_ex_image_kind P = list_ex P variants"

instance
proof
  have univ: "(UNIV :: image_kind set) = set variants"
  proof -
    have "k \<in> set variants" for k by (cases k) (simp_all add: variants_def)
    then show ?thesis by blast
  qed
  show "(UNIV :: image_kind set) = set enum_class.enum"
    by (simp add: enum_image_kind_def univ)
  show "distinct (enum_class.enum :: image_kind list)"
    by (simp add: enum_image_kind_def variants_def)
  show "enum_class.enum_all P \<longleftrightarrow> Ball (UNIV :: image_kind set) P" for P
    by (simp add: enum_all_image_kind_def univ list_all_iff)
  show "enum_class.enum_ex P \<longleftrightarrow> Bex (UNIV :: image_kind set) P" for P
    by (simp add: enum_ex_image_kind_def univ list_ex_iff)
qed

end

datatype processing_mode = Realtime | Aot | Jit

record image_formats =
  original_image_store_format :: image_kind

record bucket_config =
  mode :: processing_mode
  formats :: image_formats
  default_serving_preset :: "string option"
  max_concurrency :: "nat option"
  presets :: "(string \<times> (u32 \<times> u32)) list"

definition sizing_preset_ids :: "bucket_config \<Rightarrow> u32 list" where
  "sizing_preset_ids cfg = 0 # map (\<lambda>(name, _). crc_hash name) (presets cfg)"

subsection \<open>Properties of the encodings\<close>

lemma as_file_extension_inj: "as_file_extension k = as_file_extension k' \<longleftrightarrow> k = k'"
  by (cases k; cases k') (simp_all add: as_file_extension_def)

lemma as_file_extension_no_sep:
  "CHR '':'' \<notin> set (as_file_extension k)" "CHR ''.'' \<notin> set (as_file_extension k)"
  "CHR ''/'' \<notin> set (as_file_extension k)"
  by (cases k; simp add: as_file_extension_def)+

lemma UNIV_image_kind: "UNIV = set variants"
  using UNIV_enum [where 'a = image_kind] by (simp add: enum_image_kind_def)

lemma distinct_variants: "distinct variants"
  by (simp add: variants_def)

lemma set_variants [simp]: "k \<in> set variants"
  by (simp add: UNIV_image_kind [symmetric])

end
