(* ===== verification/Keys.thy ===== *)
theory Keys
  imports Config
begin

text \<open>
  The two string keys of the program and their injectivity:
  \<^item> \<open>u32_to_string\<close>, Rust's \<open>Display\<close> for \<open>u32\<close> (decimal, no leading zeros),
    with its parser \<open>string_to_nat\<close> and the round trip between them;
  \<^item> \<open>cache_key\<close> (\<open>BucketController::cache_key\<close>,
    \<open>"{bucket}:{sizing}:{image}:{kind}"\<close>);
  \<^item> \<open>format_path\<close> (\<open>GCPCloudStorageBackend::format_path\<close>,
    \<open>"{}/{}/{}.{}"\<close>).
  Both keys are injective in all four components for every image id, also one
  that contains the separator: the numbers and the extension never do.
\<close>

subsection \<open>Decimal rendering\<close>

definition dec_digits :: string where
  "dec_digits = ''0123456789''"

fun nat_to_string :: "nat \<Rightarrow> string" where
  "nat_to_string n =
     (if n < 10 then [dec_digits ! n]
      else nat_to_string (n div 10) @ [dec_digits ! (n mod 10)])"

declare nat_to_string.simps [simp del]

definition u32_to_string :: "u32 \<Rightarrow> string" where
  "u32_to_string w = nat_to_string (unat w)"

definition string_to_nat :: "string \<Rightarrow> nat" where
  "string_to_nat s = foldl (\<lambda>acc c. 10 * acc + (of_char c - 48)) 0 s"

subsection \<open>The keys\<close>

definition cache_key :: "u32 \<Rightarrow> u32 \<Rightarrow> string \<Rightarrow> image_kind \<Rightarrow> string" where
  "cache_key bucket sizing image_id kind =
     u32_to_string bucket @ '':'' @ u32_to_string sizing @ '':'' @ image_id @ '':''
       @ as_file_extension kind"

definition format_path :: "u32 \<Rightarrow> u32 \<Rightarrow> string \<Rightarrow> image_kind \<Rightarrow> string" where
  "format_path bucket_id sizing_id image_id format =
     u32_to_string bucket_id @ ''/'' @ u32_to_string sizing_id @ ''/'' @ image_id @ ''.''
       @ as_file_extension format"

subsection \<open>Decimal round trip\<close>

lemma string_to_nat_snoc:
  "string_to_nat (s @ [c]) = 10 * string_to_nat s + (of_char c - 48)"
  by (simp add: string_to_nat_def)

lemma of_char_digit: "d < 10 \<Longrightarrow> of_char (dec_digits ! d) = (48 + d :: nat)"
proof -
  assume "d < 10"
  then have "d = 0 \<or> d = 1 \<or> d = 2 \<or> d = 3 \<or> d = 4 \<or> d = 5 \<or> d = 6 \<or> d = 7 \<or> d = 8 \<or> d = 9"
    by arith
  then show ?thesis by (auto simp: dec_digits_def)
qed

lemma string_to_nat_nat_to_string: "string_to_nat (nat_to_string n) = n"
proof (induction n rule: nat_to_string.induct)
  case (1 n)
  show ?case
  proof (cases "n < 10")
    case True
    then show ?thesis
      by (simp add: nat_to_string.simps [of n] string_to_nat_def of_char_digit)
  next
    case False
    with "1.IH" show ?thesis
      by (simp add: nat_to_string.simps [of n] string_to_nat_snoc of_char_digit)
  qed
qed

lemma nat_to_string_inj: "nat_to_string m = nat_to_string n \<longleftrightarrow> m = n"
  by (metis string_to_nat_nat_to_string)

lemma u32_to_string_inj [simp]: "u32_to_string a = u32_to_string b \<longleftrightarrow> a = b"
  by (simp add: u32_to_string_def nat_to_string_inj word_unat_eq_iff)

lemma nat_to_string_digits:
  "c \<in> set (nat_to_string n) \<Longrightarrow> 48 \<le> (of_char c :: nat) \<and> (of_char c :: nat) < 58"
proof (induction n rule: nat_to_string.induct)
  case (1 n)
  then show ?case
    by (cases "n < 10") (auto simp: nat_to_string.simps [of n] of_char_digit)
qed

lemma u32_to_string_no_sep:
  "CHR '':'' \<notin> set (u32_to_string w)" "CHR ''/'' \<notin> set (u32_to_string w)"
  "CHR ''.'' \<notin> set (u32_to_string w)"
  unfolding u32_to_string_def using nat_to_string_digits by fastforce+

lemmas key_no_sep [simp] = u32_to_string_no_sep as_file_extension_no_sep

subsection \<open>Lengths\<close>

lemma nat_to_string_length: "n < 10 ^ Suc k \<Longrightarrow> length (nat_to_string n) \<le> Suc k"
proof (induction k arbitrary: n)
  case 0
  then show ?case by (simp add: nat_to_string.simps [of n])
next
  case (Suc k)
  show ?case
  proof (cases "n < 10")
    case True
    then show ?thesis by (simp add: nat_to_string.simps [of n])
  next
    case False
    have "n div 10 < 10 ^ Suc k" using Suc.prems by (simp add: div_less_iff_less_mult)
    with Suc.IH [of "n div 10"] False show ?thesis by (simp add: nat_to_string.simps [of n])
  qed
qed

lemma u32_to_string_length: "length (u32_to_string w) \<le> 10"
proof -
  have "unat w < 2 ^ 32" using unsigned_less [of w, where 'a = nat] by simp
  then have "unat w < 10 ^ Suc 9" by simp
  from nat_to_string_length [OF this] show ?thesis by (simp add: u32_to_string_def)
qed

lemma as_file_extension_length: "length (as_file_extension k) \<le> 4"
  by (cases k) (simp_all add: as_file_extension_def)

text \<open>
  Equal keys have equal components: the form in which the other theories use the
  injectivity of the key formats.
\<close>

lemma cache_key_eq_iff:
  "cache_key b s i k = cache_key b' s' i' k' \<longleftrightarrow> b = b' \<and> s = s' \<and> i = i' \<and> k = k'"
  by (simp add: cache_key_def append_sep_eq append_last_sep_eq as_file_extension_inj)

text \<open>C2: the cache key determines the bucket, the sizing id, the image id and the kind.\<close>

theorem cache_key_injective:
  "cache_key b s i k = cache_key b' s' i' k' \<longleftrightarrow> b = b' \<and> s = s' \<and> i = i' \<and> k = k'"
  by (simp add: cache_key_def append_sep_eq append_last_sep_eq as_file_extension_inj)

theorem format_path_injective:
  "format_path b s i k = format_path b' s' i' k' \<longleftrightarrow> b = b' \<and> s = s' \<and> i = i' \<and> k = k'"
  by (simp add: format_path_def append_sep_eq append_last_sep_eq as_file_extension_inj)

text \<open>
  C31: every cache key and every GCP object name is at most 27 characters longer than
  the image id: two decimal \<open>u32\<close> of at most ten digits, three separators and an
  extension of at most four letters.
\<close>

theorem key_length_bound:
  "length (cache_key b s i k) \<le> length i + 27 \<and> length (format_path b s i k) \<le> length i + 27"
  using u32_to_string_length [of b] u32_to_string_length [of s] as_file_extension_length [of k]
  by (simp add: cache_key_def format_path_def)

end
