(* ===== verification/Cache.thy ===== *)
theory Cache
  imports Prelude
begin

text \<open>
  The byte cache behind \<open>crate::cache::Cache\<close> (not among the sources; modelled
  from the specification, sections 2 and 6): \<open>get\<close>, \<open>insert\<close> and
  \<open>invalidate\<close> on string keys, which is all the specification states of it. The
  cache is a map from keys to bytes: \<open>get\<close> reads it, \<open>insert\<close> writes a key
  (the last writer wins), \<open>invalidate\<close> removes a key. The specification states
  no eviction policy; an eviction between two calls yields a cache with fewer
  entries, which the controller's theorems cover since they hold for every cache
  satisfying their invariant. The lemmas below show that each operation keeps a
  cache included in a backing map (\<open>\<subseteq>\<^sub>m\<close>) when it writes what the map holds.
\<close>

type_synonym byte_cache = "string \<rightharpoonup> bytes"

definition cache_new :: byte_cache where
  "cache_new = Map.empty"

definition cache_get :: "string \<Rightarrow> byte_cache \<Rightarrow> bytes option" where
  "cache_get k c = c k"

definition cache_insert :: "string \<Rightarrow> bytes \<Rightarrow> byte_cache \<Rightarrow> byte_cache" where
  "cache_insert k v c = c(k \<mapsto> v)"

definition cache_invalidate :: "string \<Rightarrow> byte_cache \<Rightarrow> byte_cache" where
  "cache_invalidate k c = c(k := None)"

lemmas cache_ops_defs = cache_get_def cache_insert_def cache_invalidate_def cache_new_def

subsection \<open>Reads after writes\<close>

lemma cache_get_insert:
  "cache_get k (cache_insert k' v c) = (if k = k' then Some v else cache_get k c)"
  by (simp add: cache_ops_defs)

lemma cache_get_invalidate:
  "cache_get k (cache_invalidate k' c) = (if k = k' then None else cache_get k c)"
  by (simp add: cache_ops_defs)

lemma cache_insert_commute:
  "k \<noteq> k' \<Longrightarrow> cache_insert k v (cache_insert k' v' c) = cache_insert k' v' (cache_insert k v c)"
  by (simp add: cache_insert_def fun_upd_twist)

lemmas cache_get_ops [simp] = cache_get_insert cache_get_invalidate

subsection \<open>A cache included in a backing map\<close>

text \<open>
  A cache agrees with a backing map \<open>M\<close> when every entry it holds is in \<open>M\<close>:
  \<open>c \<subseteq>\<^sub>m M\<close>. An insert of what \<open>M\<close> holds keeps that, and an invalidate
  keeps it whatever \<open>M\<close> then does at the key.
\<close>

lemma cache_insert_agrees:
  "c \<subseteq>\<^sub>m M \<Longrightarrow> M k = Some v \<Longrightarrow> cache_insert k v c \<subseteq>\<^sub>m M"
  by (auto simp: cache_insert_def map_le_def)

lemma cache_invalidate_agrees:
  "c \<subseteq>\<^sub>m M \<Longrightarrow> cache_invalidate k c \<subseteq>\<^sub>m M(k := x)"
  by (auto simp: cache_invalidate_def map_le_def)

end
