(* ===== verification/Storage.thy ===== *)
theory Storage
  imports Config Prelude "HOL-Library.AList"
begin

text \<open>
  The storage interface (\<open>src/src/storage/template.rs\<close>, trait
  \<open>StorageBackend\<close>) as a record of its three async methods over the backend's
  state \<open>'s\<close>, each a fallible step (\<open>('s, 'a) res\<close>).
  \<^item> \<open>storage_contract B \<alpha>\<close> is the contract of the specification (section 6)
    against an abstraction \<open>\<alpha>\<close> of the backend's state to a map from
    \<open>(bucket_id, image_id, kind, sizing_id)\<close> to bytes: a successful store
    writes its key, a fetch reads the map and changes nothing, a successful
    delete removes every variant of the image and reports every one that
    existed; a failed store or delete leaves the map as it was.
  \<^item> \<open>mem_backend\<close> is an in-memory reference implementation (an association
    list, with a list of keys whose writes fail, so that failures can be
    exercised); \<open>mem_backend_contract\<close> shows that it meets the contract.
\<close>

type_synonym skey = "u32 \<times> string \<times> image_kind \<times> u32"

record 's storage_backend =
  sb_store :: "u32 \<Rightarrow> string \<Rightarrow> image_kind \<Rightarrow> u32 \<Rightarrow> bytes \<Rightarrow> 's \<Rightarrow> ('s, unit) res"
  sb_fetch :: "u32 \<Rightarrow> string \<Rightarrow> image_kind \<Rightarrow> u32 \<Rightarrow> 's \<Rightarrow> ('s, bytes option) res"
  sb_delete :: "u32 \<Rightarrow> string \<Rightarrow> 's \<Rightarrow> ('s, (u32 \<times> image_kind) list) res"

definition image_keys :: "(skey \<rightharpoonup> bytes) \<Rightarrow> u32 \<Rightarrow> string \<Rightarrow> (u32 \<times> image_kind) set" where
  "image_keys M b i = {(s, k). (b, i, k, s) \<in> dom M}"

definition purge :: "(skey \<rightharpoonup> bytes) \<Rightarrow> u32 \<Rightarrow> string \<Rightarrow> (skey \<rightharpoonup> bytes)" where
  "purge M b i = (\<lambda>(b', i', k, s). if b' = b \<and> i' = i then None else M (b', i', k, s))"

definition storage_contract :: "'s storage_backend \<Rightarrow> ('s \<Rightarrow> skey \<rightharpoonup> bytes) \<Rightarrow> bool" where
  "storage_contract B \<alpha> \<longleftrightarrow>
     (\<forall>b i k s d st. case sb_store B b i k s d st of
         (Inr _, st') \<Rightarrow> \<alpha> st' = (\<alpha> st)((b, i, k, s) \<mapsto> d)
       | (Inl _, st') \<Rightarrow> \<alpha> st' = \<alpha> st) \<and>
     (\<forall>b i k s st. \<exists>r. sb_fetch B b i k s st = (r, st) \<and>
         (r = Inr (\<alpha> st (b, i, k, s)) \<or> isl r)) \<and>
     (\<forall>b i st. case sb_delete B b i st of
         (Inr ps, st') \<Rightarrow> \<alpha> st' = purge (\<alpha> st) b i \<and> image_keys (\<alpha> st) b i \<subseteq> set ps
       | (Inl _, st') \<Rightarrow> \<alpha> st' = \<alpha> st)"

text \<open>
  A backend whose writes fail on a set of keys that depends on its state and that
  its writes do not change: \<open>F st key\<close> holds iff a store to \<open>key\<close> in state
  \<open>st\<close> fails. It makes the outcome of each write a function of its key, so that
  the effect of a run of writes can be stated exactly.
\<close>

definition store_fails :: "'s storage_backend \<Rightarrow> ('s \<Rightarrow> skey \<Rightarrow> bool) \<Rightarrow> bool" where
  "store_fails B F \<longleftrightarrow>
     (\<forall>b i k s d st. case sb_store B b i k s d st of
        (r, st') \<Rightarrow> (isl r \<longleftrightarrow> F st (b, i, k, s)) \<and> F st' = F st)"

subsection \<open>The in-memory reference backend\<close>

record mem_storage =
  objects :: "(skey \<times> bytes) list"
  failing :: "skey list"

definition mem_store :: "u32 \<Rightarrow> string \<Rightarrow> image_kind \<Rightarrow> u32 \<Rightarrow> bytes \<Rightarrow> mem_storage
    \<Rightarrow> (mem_storage, unit) res" where
  "mem_store b i k s d st =
     (if (b, i, k, s) \<in> set (failing st) then (Inl (StorageError ''write failed''), st)
      else (Inr (), st\<lparr>objects := AList.update (b, i, k, s) d (objects st)\<rparr>))"

definition mem_fetch :: "u32 \<Rightarrow> string \<Rightarrow> image_kind \<Rightarrow> u32 \<Rightarrow> mem_storage
    \<Rightarrow> (mem_storage, bytes option) res" where
  "mem_fetch b i k s st = (Inr (map_of (objects st) (b, i, k, s)), st)"

definition of_image :: "u32 \<Rightarrow> string \<Rightarrow> skey \<times> bytes \<Rightarrow> bool" where
  "of_image b i e = (case e of ((b', i', _, _), _) \<Rightarrow> b' = b \<and> i' = i)"

definition mem_delete :: "u32 \<Rightarrow> string \<Rightarrow> mem_storage
    \<Rightarrow> (mem_storage, (u32 \<times> image_kind) list) res" where
  "mem_delete b i st =
     (Inr (map (\<lambda>((_, _, k, s), _). (s, k)) (filter (of_image b i) (objects st))),
      st\<lparr>objects := filter (\<lambda>e. \<not> of_image b i e) (objects st)\<rparr>)"

definition mem_backend :: "mem_storage storage_backend" where
  "mem_backend = \<lparr>sb_store = mem_store, sb_fetch = mem_fetch, sb_delete = mem_delete\<rparr>"

definition mem_contents :: "mem_storage \<Rightarrow> skey \<rightharpoonup> bytes" where
  "mem_contents st = map_of (objects st)"

subsection \<open>The reference backend meets the contract\<close>

lemma map_of_filter_image:
  "map_of (filter (\<lambda>e. \<not> of_image b i e) xs) = purge (map_of xs) b i"
  by (induction xs) (auto simp: purge_def of_image_def fun_eq_iff split: prod.splits)

lemma image_keys_listed:
  "image_keys (map_of xs) b i \<subseteq> set (map (\<lambda>((_, _, k, s), _). (s, k)) (filter (of_image b i) xs))"
proof
  fix p assume "p \<in> image_keys (map_of xs) b i"
  then obtain s k d where p: "p = (s, k)" and "((b, i, k, s), d) \<in> set xs"
    by (auto simp: image_keys_def dest!: map_of_SomeD)
  then show "p \<in> set (map (\<lambda>((_, _, k, s), _). (s, k)) (filter (of_image b i) xs))"
    by (auto simp: of_image_def intro!: image_eqI [where x = "((b, i, k, s), d)"])
qed

theorem mem_backend_contract: "storage_contract mem_backend mem_contents"
  unfolding storage_contract_def
  by (auto simp: mem_backend_def mem_store_def mem_fetch_def mem_delete_def mem_contents_def
      update_conv' map_of_filter_image dest: subsetD [OF image_keys_listed])

lemma mem_backend_store_fails: "store_fails mem_backend (\<lambda>st key. key \<in> set (failing st))"
  by (simp add: store_fails_def mem_backend_def mem_store_def)

end
