(* ===== verification/Pipeline.thy ===== *)
theory Pipeline
  imports Config
begin

text \<open>
  The pipeline interface (\<open>src/src/pipelines/register.rs\<close>): the trait
  \<open>Pipeline\<close> with its two hooks, and \<open>PipelineSelector\<close>, the closed enum over
  the three mode pipelines that \<open>enum_dispatch\<close> turns into a \<open>match\<close>.
  A trait object is a record of its methods (a dictionary); the hooks are
  synchronous, CPU-bound and pure given their inputs, so each is a function to
  \<open>error + pipeline_result\<close>. The three implementations (\<open>aot.rs\<close>, \<open>jit.rs\<close>,
  \<open>realtime.rs\<close>) are not among the sources: the ahead-of-time one is modelled
  from the specification (section 4.2), over a black-box resize/encode function.
\<close>

record store_entry =
  entry_data :: bytes
  entry_kind :: image_kind
  entry_sizing_id :: u32

record pipeline_result =
  to_store :: "store_entry list"
  response :: "store_entry option"

record pipeline =
  on_upload :: "image_kind \<Rightarrow> bytes \<Rightarrow> error + pipeline_result"
  on_fetch :: "image_kind \<Rightarrow> image_kind \<Rightarrow> bytes \<Rightarrow> u32 \<Rightarrow> (u32 \<times> u32) option
                 \<Rightarrow> error + pipeline_result"

datatype pipeline_selector =
    RealtimePipeline pipeline
  | AheadOfTimePipeline pipeline
  | JustInTimePipeline pipeline

fun selected_pipeline :: "pipeline_selector \<Rightarrow> pipeline" where
  "selected_pipeline (RealtimePipeline p) = p"
| "selected_pipeline (AheadOfTimePipeline p) = p"
| "selected_pipeline (JustInTimePipeline p) = p"

text \<open>
  The ahead-of-time pipeline of the specification (section 4.2: "all size/format
  variants are ... produced and stored at upload time"): on upload it encodes the
  image at every sizing of the bucket, the original size first (sizing id \<open>0\<close>)
  and then each preset (sizing id the CRC of its name), each in every kind of
  \<open>variants\<close>; \<open>encode\<close> stands for the pixel transform (source kind, target
  kind, target dimensions or none for the original size, bytes). The configuration
  model has no per-format switches, so every kind is produced. On fetch it only
  re-encodes the bytes it is given and stores nothing (the controller does not call
  it in this mode).
\<close>

definition aot_sizings :: "bucket_config \<Rightarrow> (u32 \<times> (u32 \<times> u32) option) list" where
  "aot_sizings cfg = (0, None) # map (\<lambda>(name, dims). (crc_hash name, Some dims)) (presets cfg)"

definition aot_pipeline ::
  "(image_kind \<Rightarrow> image_kind \<Rightarrow> (u32 \<times> u32) option \<Rightarrow> bytes \<Rightarrow> bytes)
   \<Rightarrow> bucket_config \<Rightarrow> pipeline" where
  "aot_pipeline encode cfg =
     \<lparr>on_upload = (\<lambda>k d.
        Inr \<lparr>to_store =
               concat (map (\<lambda>(sizing_id, dims).
                              map (\<lambda>fmt. \<lparr>entry_data = encode k fmt dims d, entry_kind = fmt,
                                          entry_sizing_id = sizing_id\<rparr>) variants)
                         (aot_sizings cfg)),
             response = None\<rparr>),
      on_fetch = (\<lambda>desired k d sz custom.
        Inr \<lparr>to_store = [],
             response = Some \<lparr>entry_data = encode k desired custom d, entry_kind = desired,
                              entry_sizing_id = sz\<rparr>\<rparr>)\<rparr>"

end
