(* ===== verification/Controller.thy ===== *)
theory Controller
  imports Keys Cache Storage Pipeline "HOL-Library.Multiset"
begin

text \<open>
  \<open>BucketController\<close> (\<open>src/src/controller.rs\<close>, lines 29-342).
  \<^item> The immutable fields of the struct are the record \<open>bucket_controller\<close>: the
    bucket id, the optional global and local limiters, the configuration, the
    pipeline and the storage backend (a dictionary of its methods).
  \<^item> What the program mutates behind shared references is the world
    \<open>'s world\<close>: the backend's state, the contents of the bucket's own cache
    (\<open>self.cache\<close>, \<open>None\<close> when the bucket has none), the contents of the
    process-wide cache (\<open>global_cache()\<close>), and a ghost log of the pipeline hooks
    called, so that "the fetch hook is not invoked" can be stated.
  \<^item> Admission: \<open>get_optional_permit\<close> with \<open>acquire\<close> on a semaphore. In a
    single call the permit is taken at the start and released on every exit, so
    the world does not change; a semaphore without free permits never completes
    the acquisition, which is the value \<open>None\<close> of the handler.
  \<^item> The handlers \<open>upload\<close>, \<open>fetch\<close>, \<open>delete\<close> and the helpers
    \<open>caching_fetch\<close> and \<open>concurrent_upload\<close>. The fan-out runs every task to
    completion (spawned tasks are not cancelled) and reports the first error in
    task order, as the loop \<open>for task in tasks { task.await??; }\<close> does. Here
    the tasks run one after another in list order (\<open>run_tasks\<close>), which is one
    of the schedules the runtime may choose; theory \<open>Fanout\<close> models every
    interleaving of the tasks' steps and shows that, for entries with distinct
    variant keys, every complete schedule ends in the state \<open>run_tasks\<close> computes
    (C24). For entries sharing a key, the statements here about the storage
    describe the list-order schedule only.
\<close>

subsection \<open>State\<close>

record semaphore =
  permits :: nat
  closed :: bool

datatype permit = GlobalPermit | LocalPermit

datatype hook = OnUpload | OnFetch

record 's bucket_controller =
  bucket_id :: u32
  global_limiter :: "semaphore option"
  config :: bucket_config
  pipeline :: pipeline
  storage :: "'s storage_backend"
  limiter :: "semaphore option"

record 's world =
  storage_state :: 's
  bucket_cache :: "byte_cache option"
  global_cache :: "byte_cache option"
  hook_log :: "hook list"

record upload_info =
  info_image_id :: string
  info_checksum :: u32
  info_images :: "u32 list"
  info_bucket_id :: u32

datatype cache_ref = BucketCache | GlobalCache

subsection \<open>Construction and admission\<close>

definition semaphore_new :: "nat \<Rightarrow> semaphore" where
  "semaphore_new n = \<lparr>permits = n, closed = False\<rparr>"

definition bucket_controller_new :: "u32 \<Rightarrow> semaphore option \<Rightarrow> bucket_config \<Rightarrow> pipeline
    \<Rightarrow> 's storage_backend \<Rightarrow> 's bucket_controller" where
  "bucket_controller_new bucket_id' global_limiter' config' pipeline' storage' =
     \<lparr>bucket_id = bucket_id', global_limiter = global_limiter', config = config',
      pipeline = pipeline', storage = storage',
      limiter = map_option semaphore_new (max_concurrency config')\<rparr>"

definition acquire :: "semaphore \<Rightarrow> (error + unit) option" where
  "acquire s =
     (if closed s then Some (Inl AcquireError)
      else if 0 < permits s then Some (Inr ()) else None)"

definition get_optional_permit :: "semaphore option \<Rightarrow> semaphore option
    \<Rightarrow> (error + permit option) option" where
  "get_optional_permit global local =
     (case global of
        Some l \<Rightarrow> map_option (map_sum id (\<lambda>_. Some GlobalPermit)) (acquire l)
      | None \<Rightarrow>
          (case local of
             Some l \<Rightarrow> map_option (map_sum id (\<lambda>_. Some LocalPermit)) (acquire l)
           | None \<Rightarrow> Some (Inr None)))"

definition with_permit :: "'s bucket_controller \<Rightarrow> ('s world \<Rightarrow> ('s world, 'a) res)
    \<Rightarrow> 's world \<Rightarrow> ('s world, 'a) res option" where
  "with_permit ctl body w =
     (case get_optional_permit (global_limiter ctl) (limiter ctl) of
        None \<Rightarrow> None
      | Some (Inl e) \<Rightarrow> Some (Inl e, w)
      | Some (Inr _) \<Rightarrow> Some (body w))"

subsection \<open>Effects on the world\<close>

definition storage_op :: "('s \<Rightarrow> ('s, 'a) res) \<Rightarrow> 's world \<Rightarrow> ('s world, 'a) res" where
  "storage_op f w = (case f (storage_state w) of (r, st) \<Rightarrow> (r, w\<lparr>storage_state := st\<rparr>))"

definition cache_backend :: "'s world \<Rightarrow> cache_ref option" where
  "cache_backend w =
     (if bucket_cache w \<noteq> None then Some BucketCache
      else if global_cache w \<noteq> None then Some GlobalCache else None)"

definition map_cache :: "cache_ref \<Rightarrow> (byte_cache \<Rightarrow> byte_cache) \<Rightarrow> 's world \<Rightarrow> 's world" where
  "map_cache r f w =
     (case r of
        BucketCache \<Rightarrow> w\<lparr>bucket_cache := map_option f (bucket_cache w)\<rparr>
      | GlobalCache \<Rightarrow> w\<lparr>global_cache := map_option f (global_cache w)\<rparr>)"

definition the_cache :: "cache_ref \<Rightarrow> 's world \<Rightarrow> byte_cache option" where
  "the_cache r w = (case r of BucketCache \<Rightarrow> bucket_cache w | GlobalCache \<Rightarrow> global_cache w)"

definition cache_read :: "cache_ref \<Rightarrow> string \<Rightarrow> 's world \<Rightarrow> bytes option" where
  "cache_read r key w = (case the_cache r w of None \<Rightarrow> None | Some c \<Rightarrow> cache_get key c)"

definition log_hook :: "hook \<Rightarrow> 's world \<Rightarrow> 's world" where
  "log_hook h w = w\<lparr>hook_log := hook_log w @ [h]\<rparr>"

subsection \<open>Cache-aside read and fan-out write\<close>

definition caching_fetch :: "'s bucket_controller \<Rightarrow> string \<Rightarrow> image_kind \<Rightarrow> u32
    \<Rightarrow> 's world \<Rightarrow> ('s world, bytes option) res" where
  "caching_fetch ctl image_id fetch_kind sizing_id w =
     (let maybe_cache_backend = cache_backend w;
          key = cache_key (bucket_id ctl) sizing_id image_id fetch_kind;
          hit = (case maybe_cache_backend of None \<Rightarrow> None | Some r \<Rightarrow> cache_read r key w)
      in case hit of
           Some buffer \<Rightarrow> (Inr (Some buffer), w)
         | None \<Rightarrow>
             qbind (storage_op (sb_fetch (storage ctl) (bucket_id ctl) image_id fetch_kind sizing_id) w)
               (\<lambda>maybe_existing w2.
                  (Inr maybe_existing,
                   case (maybe_cache_backend, maybe_existing) of
                     (Some r, Some buffer) \<Rightarrow> map_cache r (cache_insert key buffer) w2
                   | _ \<Rightarrow> w2)))"

definition fanout_task :: "'s bucket_controller \<Rightarrow> string \<Rightarrow> store_entry
    \<Rightarrow> 's world \<Rightarrow> ('s world, unit) res" where
  "fanout_task ctl image_id e w =
     qbind (storage_op (sb_store (storage ctl) (bucket_id ctl) image_id (entry_kind e)
                          (entry_sizing_id e) (entry_data e)) w)
       (\<lambda>_ w1. (Inr (),
          map_cache BucketCache
            (cache_insert (cache_key (bucket_id ctl) (entry_sizing_id e) image_id (entry_kind e))
               (entry_data e)) w1))"

primrec run_tasks :: "'s bucket_controller \<Rightarrow> string \<Rightarrow> store_entry list
    \<Rightarrow> 's world \<Rightarrow> (error + unit) list \<times> 's world" where
  "run_tasks ctl image_id [] w = ([], w)"
| "run_tasks ctl image_id (e # es) w =
     (case fanout_task ctl image_id e w of
        (r, w1) \<Rightarrow> (case run_tasks ctl image_id es w1 of (rs, w2) \<Rightarrow> (r # rs, w2)))"

primrec first_error :: "(error + unit) list \<Rightarrow> error option" where
  "first_error [] = None"
| "first_error (r # rs) = (case r of Inl e \<Rightarrow> Some e | Inr _ \<Rightarrow> first_error rs)"

definition concurrent_upload :: "'s bucket_controller \<Rightarrow> string \<Rightarrow> store_entry list
    \<Rightarrow> 's world \<Rightarrow> ('s world, u32 list) res" where
  "concurrent_upload ctl image_id to_store' w =
     (case run_tasks ctl image_id to_store' w of
        (results, w') \<Rightarrow>
          (case first_error results of
             Some e \<Rightarrow> Inl e
           | None \<Rightarrow> Inr (map entry_sizing_id to_store'), w'))"

subsection \<open>The cache-agreement invariant\<close>

text \<open>
  The cache a bucket reads agrees with the storage when every entry it holds under
  a key of this bucket is the bytes the storage holds for that variant.
\<close>

definition cache_agrees :: "u32 \<Rightarrow> (skey \<rightharpoonup> bytes) \<Rightarrow> byte_cache \<Rightarrow> bool" where
  "cache_agrees b M c \<longleftrightarrow>
     (\<forall>s i k v. cache_get (cache_key b s i k) c = Some v \<longrightarrow> M (b, i, k, s) = Some v)"

definition world_inv :: "u32 \<Rightarrow> ('s \<Rightarrow> skey \<rightharpoonup> bytes) \<Rightarrow> 's world \<Rightarrow> bool" where
  "world_inv b \<alpha> w \<longleftrightarrow>
     (\<forall>r c. cache_backend w = Some r \<longrightarrow> the_cache r w = Some c \<longrightarrow>
        cache_agrees b (\<alpha> (storage_state w)) c)"

subsection \<open>The handlers\<close>

text \<open>
  \<open>upload\<close>: the checksum and the content hash of the bytes, the upload hook
  (\<open>spawn_blocking\<close>, whose error is the handler's), then the fan-out. The
  timings of \<open>UploadInfo\<close> are wall-clock diagnostics and are not modelled.
  \<open>D\<close> is the SHA-256 digest the code calls.
\<close>

definition upload_body :: "(bytes \<Rightarrow> bytes) \<Rightarrow> 's bucket_controller \<Rightarrow> image_kind \<Rightarrow> bytes
    \<Rightarrow> 's world \<Rightarrow> ('s world, upload_info) res" where
  "upload_body D ctl kind data w =
     (let checksum = crc32_hash data;
          image_id = sha256_hash D data;
          w1 = log_hook OnUpload w
      in case on_upload (pipeline ctl) kind data of
           Inl e \<Rightarrow> (Inl e, w1)
         | Inr result \<Rightarrow>
             qbind (concurrent_upload ctl image_id (to_store result) w1)
               (\<lambda>image_upload_info w2.
                  (Inr \<lparr>info_image_id = image_id, info_checksum = checksum,
                        info_images = image_upload_info, info_bucket_id = bucket_id ctl\<rparr>, w2)))"

definition upload :: "(bytes \<Rightarrow> bytes) \<Rightarrow> 's bucket_controller \<Rightarrow> image_kind \<Rightarrow> bytes
    \<Rightarrow> 's world \<Rightarrow> ('s world, upload_info) res option" where
  "upload D ctl kind data w = with_permit ctl (upload_body D ctl kind data) w"

text \<open>
  \<open>fetch\<close>: the sizing id of the requested preset (an explicit preset wins over
  the bucket's default; \<open>"original"\<close> and no preset are \<open>0\<close>), the cache-aside
  read of the requested variant (in realtime mode: the store format at sizing
  \<open>0\<close>), the just-in-time fallback to the original, and then
  \<open>fetch_finish\<close>: in ahead-of-time mode the bytes are returned as they are,
  otherwise the fetch hook derives the response and its \<open>to_store\<close> entries are
  fanned out.
\<close>

definition resolve_sizing_id :: "bucket_config \<Rightarrow> string option \<Rightarrow> u32" where
  "resolve_sizing_id cfg size_preset =
     (let sizing = (case size_preset of Some p \<Rightarrow> Some p | None \<Rightarrow> default_serving_preset cfg)
      in case sizing of
           Some sizing_preset \<Rightarrow> (if sizing_preset = ''original'' then 0 else crc_hash sizing_preset)
         | None \<Rightarrow> 0)"

definition fetch_finish :: "'s bucket_controller \<Rightarrow> string \<Rightarrow> image_kind \<Rightarrow> u32
    \<Rightarrow> (u32 \<times> u32) option \<Rightarrow> bytes \<Rightarrow> image_kind \<Rightarrow> 's world \<Rightarrow> ('s world, store_entry option) res" where
  "fetch_finish ctl image_id desired_kind sizing_id custom_sizing data retrieved_kind w =
     (if mode (config ctl) = Aot then
        (Inr (Some \<lparr>entry_data = data, entry_kind = retrieved_kind, entry_sizing_id = sizing_id\<rparr>), w)
      else
        (let w1 = log_hook OnFetch w in
         case on_fetch (pipeline ctl) desired_kind retrieved_kind data sizing_id custom_sizing of
           Inl e \<Rightarrow> (Inl e, w1)
         | Inr result \<Rightarrow>
             qbind (concurrent_upload ctl image_id (to_store result) w1)
               (\<lambda>_ w2. (Inr (response result), w2))))"

definition fetch_body :: "'s bucket_controller \<Rightarrow> string \<Rightarrow> image_kind \<Rightarrow> string option
    \<Rightarrow> (u32 \<times> u32) option \<Rightarrow> 's world \<Rightarrow> ('s world, store_entry option) res" where
  "fetch_body ctl image_id desired_kind size_preset custom_sizing w =
     (let cfg = config ctl;
          sizing_id = resolve_sizing_id cfg size_preset;
          fetch_kind = (if mode cfg = Realtime then original_image_store_format (formats cfg)
                        else desired_kind)
      in qbind (caching_fetch ctl image_id fetch_kind
                  (if mode cfg = Realtime then 0 else sizing_id) w)
           (\<lambda>maybe_existing w1.
              case maybe_existing of
                None \<Rightarrow>
                  (if mode cfg = Jit then
                     (let base_kind = original_image_store_format (formats cfg) in
                      qbind (caching_fetch ctl image_id base_kind 0 w1)
                        (\<lambda>value w2. case value of
                            None \<Rightarrow> (Inr None, w2)
                          | Some original \<Rightarrow>
                              fetch_finish ctl image_id desired_kind sizing_id custom_sizing
                                original base_kind w2))
                   else (Inr None, w1))
              | Some computed \<Rightarrow>
                  fetch_finish ctl image_id desired_kind sizing_id custom_sizing computed fetch_kind w1))"

definition fetch :: "'s bucket_controller \<Rightarrow> string \<Rightarrow> image_kind \<Rightarrow> string option
    \<Rightarrow> (u32 \<times> u32) option \<Rightarrow> 's world \<Rightarrow> ('s world, store_entry option) res option" where
  "fetch ctl image_id desired_kind size_preset custom_sizing w =
     with_permit ctl (fetch_body ctl image_id desired_kind size_preset custom_sizing) w"

text \<open>
  \<open>delete\<close>: the backend purges the image and reports the variants it removed;
  each is invalidated in the bucket's own cache only (\<open>if let Some(ref cache) =
  self.cache\<close>), never in the process-wide cache.
\<close>

definition delete_body :: "'s bucket_controller \<Rightarrow> string \<Rightarrow> 's world \<Rightarrow> ('s world, unit) res" where
  "delete_body ctl image_id w =
     qbind (storage_op (sb_delete (storage ctl) (bucket_id ctl) image_id) w)
       (\<lambda>purged_entities w1.
          (Inr (),
           map_cache BucketCache
             (\<lambda>c. fold (\<lambda>(sizing_id, kind). cache_invalidate (cache_key (bucket_id ctl) sizing_id image_id kind))
                    purged_entities c) w1))"

definition delete :: "'s bucket_controller \<Rightarrow> string \<Rightarrow> 's world \<Rightarrow> ('s world, unit) res option" where
  "delete ctl image_id w = with_permit ctl (delete_body ctl image_id) w"

subsection \<open>Abstract effects of the fan-out\<close>

text \<open>
  The storage key of an entry, the map after storing a list of entries in order,
  and after storing only those whose task succeeded; a backend whose reads never
  fail.
\<close>

definition entry_key :: "u32 \<Rightarrow> string \<Rightarrow> store_entry \<Rightarrow> skey" where
  "entry_key b i e = (b, i, entry_kind e, entry_sizing_id e)"

definition store_all :: "u32 \<Rightarrow> string \<Rightarrow> store_entry list \<Rightarrow> (skey \<rightharpoonup> bytes) \<Rightarrow> (skey \<rightharpoonup> bytes)" where
  "store_all b i es M = fold (\<lambda>e M. M(entry_key b i e \<mapsto> entry_data e)) es M"

definition apply_results :: "u32 \<Rightarrow> string \<Rightarrow> store_entry list \<Rightarrow> (error + unit) list
    \<Rightarrow> (skey \<rightharpoonup> bytes) \<Rightarrow> (skey \<rightharpoonup> bytes)" where
  "apply_results b i es rs M =
     fold (\<lambda>(e, r) M. case r of Inl _ \<Rightarrow> M | Inr _ \<Rightarrow> M(entry_key b i e \<mapsto> entry_data e)) (zip es rs) M"

definition fetch_reliable :: "'s storage_backend \<Rightarrow> bool" where
  "fetch_reliable B \<longleftrightarrow> (\<forall>b i k s st. \<not> isl (fst (sb_fetch B b i k s st)))"

subsection \<open>Lemmas on the world\<close>

text \<open>The definitions a closed run of the handlers unfolds to, for evaluation by \<open>simp\<close>.\<close>

lemmas run_defs = with_permit_def get_optional_permit_def acquire_def storage_op_def
  cache_backend_def map_cache_def the_cache_def cache_read_def log_hook_def
  caching_fetch_def fanout_task_def concurrent_upload_def upload_body_def upload_def
  resolve_sizing_id_def fetch_finish_def fetch_body_def fetch_def delete_body_def delete_def
  cache_key_def u32_to_string_def nat_to_string.simps dec_digits_def as_file_extension_def
  cache_ops_defs Let_def

lemma world_simps [simp]:
  "storage_state (map_cache r f w) = storage_state w"
  "hook_log (map_cache r f w) = hook_log w"
  "cache_backend (map_cache r f w) = cache_backend w"
  "storage_state (log_hook h w) = storage_state w"
  "bucket_cache (log_hook h w) = bucket_cache w"
  "global_cache (log_hook h w) = global_cache w"
  "hook_log (log_hook h w) = hook_log w @ [h]"
  by (cases r; simp add: map_cache_def cache_backend_def log_hook_def)+

lemma the_cache_map_cache:
  "the_cache r (map_cache r' f w) = (if r = r' then map_option f (the_cache r w) else the_cache r w)"
  by (cases r; cases r') (simp_all add: the_cache_def map_cache_def)

lemma cache_backend_the_cache: "cache_backend w = Some r \<Longrightarrow> \<exists>c. the_cache r w = Some c"
  by (auto simp: cache_backend_def the_cache_def split: if_splits)

lemma cache_backend_log_hook [simp]: "cache_backend (log_hook h w) = cache_backend w"
  by (simp add: cache_backend_def)

lemma the_cache_log_hook [simp]: "the_cache r (log_hook h w) = the_cache r w"
  by (cases r) (simp_all add: the_cache_def)

lemma world_inv_log_hook [simp]: "world_inv b \<alpha> (log_hook h w) = world_inv b \<alpha> w"
  by (simp add: world_inv_def)

lemma storage_op_fetch:
  assumes "storage_contract B \<alpha>"
  obtains r where "storage_op (sb_fetch B b i k s) w = (r, w)"
    and "r = Inr (\<alpha> (storage_state w) (b, i, k, s)) \<or> isl r"
proof -
  from assms have "\<exists>r. sb_fetch B b i k s (storage_state w) = (r, storage_state w) \<and>
      (r = Inr (\<alpha> (storage_state w) (b, i, k, s)) \<or> isl r)"
    unfolding storage_contract_def by blast
  then obtain r where r: "sb_fetch B b i k s (storage_state w) = (r, storage_state w)"
    and "r = Inr (\<alpha> (storage_state w) (b, i, k, s)) \<or> isl r"
    by blast
  moreover from r have "storage_op (sb_fetch B b i k s) w = (r, w)"
    by (simp add: storage_op_def)
  ultimately show ?thesis using that by blast
qed

subsection \<open>Agreement is kept by each cache operation\<close>

lemma cache_agrees_insert:
  assumes "cache_agrees b M c"
  shows "cache_agrees b (M((b, i, k, s) \<mapsto> v)) (cache_insert (cache_key b s i k) v c)"
  using assms by (auto simp: cache_agrees_def cache_key_eq_iff)

lemma cache_agrees_insert_stored:
  "cache_agrees b M c \<Longrightarrow> M (b, i, k, s) = Some v \<Longrightarrow>
    cache_agrees b M (cache_insert (cache_key b s i k) v c)"
  using cache_agrees_insert [of b M c i k s v] by (simp add: map_upd_triv)

lemma cache_get_fold_invalidate:
  "cache_get key (fold (\<lambda>(s, k). cache_invalidate (cache_key b s i k)) ps c) =
     (if key \<in> (\<lambda>(s, k). cache_key b s i k) ` set ps then None else cache_get key c)"
  by (induction ps arbitrary: c) auto

lemma cache_agrees_purge:
  assumes "cache_agrees b M c" and "image_keys M b i \<subseteq> set ps"
  shows "cache_agrees b (purge M b i) (fold (\<lambda>(s, k). cache_invalidate (cache_key b s i k)) ps c)"
  unfolding cache_agrees_def
proof (intro allI impI)
  fix s' i' k' v'
  assume hit: "cache_get (cache_key b s' i' k') (fold (\<lambda>(s, k). cache_invalidate (cache_key b s i k)) ps c)
      = Some v'"
  then have kept: "cache_key b s' i' k' \<notin> (\<lambda>(s, k). cache_key b s i k) ` set ps"
    and old: "cache_get (cache_key b s' i' k') c = Some v'"
    by (simp_all add: cache_get_fold_invalidate split: if_splits)
  from old assms(1) have M: "M (b, i', k', s') = Some v'"
    by (simp add: cache_agrees_def)
  have "i' \<noteq> i"
  proof
    assume "i' = i"
    with M have "(s', k') \<in> set ps"
      using assms(2) by (auto simp: image_keys_def)
    with kept \<open>i' = i\<close> show False by force
  qed
  with M show "purge M b i (b, i', k', s') = Some v'"
    by (simp add: purge_def)
qed

lemma world_inv_map_cache:
  assumes "world_inv b \<alpha> w" and "cache_backend w = Some r" and "the_cache r w = Some c"
    and "cache_agrees b (\<alpha> (storage_state w)) (f c)"
  shows "world_inv b \<alpha> (map_cache r f w)"
  using assms by (auto simp: world_inv_def the_cache_map_cache)

lemma world_inv_cache_fill:
  assumes "world_inv b \<alpha> w" and "cache_backend w = Some r"
    and "\<alpha> (storage_state w) (b, i, k, s) = Some v"
  shows "world_inv b \<alpha> (map_cache r (cache_insert (cache_key b s i k) v) w)"
proof -
  from assms(2) obtain c where c: "the_cache r w = Some c"
    using cache_backend_the_cache by blast
  with assms(1,2) have "cache_agrees b (\<alpha> (storage_state w)) c"
    by (auto simp: world_inv_def)
  with assms c show ?thesis
    by (intro world_inv_map_cache) (auto intro: cache_agrees_insert_stored)
qed

lemma world_inv_hit:
  "world_inv b \<alpha> w \<Longrightarrow> cache_backend w = Some r \<Longrightarrow> the_cache r w = Some c \<Longrightarrow>
    cache_get (cache_key b s i k) c = Some v \<Longrightarrow> \<alpha> (storage_state w) (b, i, k, s) = Some v"
  by (auto simp: world_inv_def cache_agrees_def)

lemma cache_read_eq: "the_cache r w = Some c \<Longrightarrow> cache_read r key w = cache_get key c"
  by (simp add: cache_read_def)

subsection \<open>Cache-aside reads return what the storage holds\<close>

lemma caching_fetch_correct:
  assumes contract: "storage_contract (storage ctl) \<alpha>"
    and inv: "world_inv (bucket_id ctl) \<alpha> w"
    and run: "caching_fetch ctl i k s w = (Inr r, w')"
  shows "r = \<alpha> (storage_state w) (bucket_id ctl, i, k, s) \<and> world_inv (bucket_id ctl) \<alpha> w' \<and>
    storage_state w' = storage_state w"
proof -
  let ?b = "bucket_id ctl"
  let ?K = "cache_key ?b s i k"
  let ?M = "\<alpha> (storage_state w) (?b, i, k, s)"
  have miss: "qbind (storage_op (sb_fetch (storage ctl) ?b i k s) w1)
      (\<lambda>m w2. (Inr m, case (cb, m) of (Some r, Some buffer) \<Rightarrow> map_cache r (cache_insert ?K buffer) w2
                                  | _ \<Rightarrow> w2)) = (Inr r, w') \<Longrightarrow>
    world_inv ?b \<alpha> w1 \<Longrightarrow> storage_state w1 = storage_state w \<Longrightarrow>
    cache_backend w1 = cb \<Longrightarrow> ?thesis" for w1 cb
  proof -
    assume q: "qbind (storage_op (sb_fetch (storage ctl) ?b i k s) w1)
      (\<lambda>m w2. (Inr m, case (cb, m) of (Some r, Some buffer) \<Rightarrow> map_cache r (cache_insert ?K buffer) w2
                                  | _ \<Rightarrow> w2)) = (Inr r, w')"
      and inv1: "world_inv ?b \<alpha> w1" and st: "storage_state w1 = storage_state w"
      and cb: "cache_backend w1 = cb"
    obtain x where x: "storage_op (sb_fetch (storage ctl) ?b i k s) w1 = (x, w1)"
      and xr: "x = Inr (\<alpha> (storage_state w1) (?b, i, k, s)) \<or> isl x"
      using storage_op_fetch [OF contract] by blast
    from q x xr have x_ok: "x = Inr (\<alpha> (storage_state w1) (?b, i, k, s))"
      by (cases x) auto
    from q x x_ok have r: "r = ?M"
      and w': "w' = (case (cb, r) of (Some r, Some buffer) \<Rightarrow> map_cache r (cache_insert ?K buffer) w1
                                | _ \<Rightarrow> w1)"
      using st by auto
    have "world_inv ?b \<alpha> w'"
      using w' r inv1 cb st world_inv_cache_fill [of ?b \<alpha> w1 _ i k s]
      by (auto split: option.splits)
    with r w' st show ?thesis by (auto split: option.splits)
  qed
  show ?thesis
  proof (cases "cache_backend w")
    case None
    with run show ?thesis
      by (intro miss [of w None]) (simp_all add: caching_fetch_def inv Let_def)
  next
    case (Some cr)
    note cb = this
    then obtain c where c: "the_cache cr w = Some c"
      using cache_backend_the_cache by blast
    show ?thesis
    proof (cases "cache_get ?K c")
      case (Some v)
      with run cb c have "r = Some v" "w' = w"
        by (simp_all add: caching_fetch_def cache_read_eq Let_def)
      with world_inv_hit [OF inv cb c Some] inv show ?thesis
        by simp
    next
      case None
      with run cb c show ?thesis
        by (intro miss [of w "Some cr"]) (simp_all add: caching_fetch_def cache_read_eq inv Let_def)
    qed
  qed
qed

text \<open>
  C1: under the agreement invariant, a successful \<open>caching_fetch\<close> returns exactly
  the bytes the storage holds for the variant (or that it holds none), whether it
  was served from the cache or from the backend; it keeps the invariant and does
  not change the storage.
\<close>

theorem caching_fetch_reads_storage:
  assumes "storage_contract (storage ctl) \<alpha>" and "world_inv (bucket_id ctl) \<alpha> w"
    and "caching_fetch ctl i k s w = (Inr r, w')"
  shows "r = \<alpha> (storage_state w) (bucket_id ctl, i, k, s) \<and> world_inv (bucket_id ctl) \<alpha> w' \<and>
    storage_state w' = storage_state w"
  using assms by (rule caching_fetch_correct)

subsection \<open>The fan-out\<close>

lemma first_error_None_iff: "first_error rs = None \<longleftrightarrow> (\<forall>r \<in> set rs. \<not> isl r)"
  by (induction rs) (auto split: sum.splits)

lemma world_inv_storage_same:
  "world_inv b \<alpha> w \<Longrightarrow> \<alpha> st = \<alpha> (storage_state w) \<Longrightarrow> world_inv b \<alpha> (w\<lparr>storage_state := st\<rparr>)"
  by (simp add: world_inv_def cache_backend_def the_cache_def)

lemma cache_backend_storage [simp]: "cache_backend (w\<lparr>storage_state := st\<rparr>) = cache_backend w"
  by (simp add: cache_backend_def)

lemma the_cache_storage [simp]: "the_cache r (w\<lparr>storage_state := st\<rparr>) = the_cache r w"
  by (cases r) (simp_all add: the_cache_def)

lemma storage_op_store:
  assumes contract: "storage_contract B \<alpha>" and run: "storage_op (sb_store B b i k s d) w = (r, w')"
  shows "w' = w\<lparr>storage_state := storage_state w'\<rparr>"
    and "\<alpha> (storage_state w') = (case r of Inl _ \<Rightarrow> \<alpha> (storage_state w)
                                | Inr _ \<Rightarrow> (\<alpha> (storage_state w))((b, i, k, s) \<mapsto> d))"
proof -
  obtain r1 st1 where s1: "sb_store B b i k s d (storage_state w) = (r1, st1)"
    by fastforce
  with run have r: "r = r1" and w': "w' = w\<lparr>storage_state := st1\<rparr>"
    by (auto simp: storage_op_def)
  then show "w' = w\<lparr>storage_state := storage_state w'\<rparr>" by simp
  note c = contract [unfolded storage_contract_def, THEN conjunct1, rule_format,
      where b = b and i = i and k = k and s = s and d = d and st = "storage_state w"]
  with s1 r w' show "\<alpha> (storage_state w') = (case r of Inl _ \<Rightarrow> \<alpha> (storage_state w)
                                | Inr _ \<Rightarrow> (\<alpha> (storage_state w))((b, i, k, s) \<mapsto> d))"
    by (simp split: sum.splits)
qed

lemma fanout_task_storage:
  assumes contract: "storage_contract (storage ctl) \<alpha>"
    and run: "fanout_task ctl i e w = (r, w')"
  shows "cache_backend w' = cache_backend w \<and>
    \<alpha> (storage_state w') = (case r of Inl _ \<Rightarrow> \<alpha> (storage_state w)
                              | Inr _ \<Rightarrow> (\<alpha> (storage_state w))(entry_key (bucket_id ctl) i e \<mapsto> entry_data e))"
proof -
  obtain r0 w0 where st: "storage_op (sb_store (storage ctl) (bucket_id ctl) i (entry_kind e)
      (entry_sizing_id e) (entry_data e)) w = (r0, w0)"
    by fastforce
  note w0 = storage_op_store(1) [OF contract st]
  note M0 = storage_op_store(2) [OF contract st, folded entry_key_def]
  have cb0: "cache_backend w0 = cache_backend w"
    by (subst w0) simp
  show ?thesis
  proof (cases r0)
    case (Inl err)
    with run st have "r = Inl err" "w' = w0" by (simp_all add: fanout_task_def)
    with M0 Inl cb0 show ?thesis by simp
  next
    case (Inr u)
    with run st have "r = Inr ()"
      and "w' = map_cache BucketCache (cache_insert (cache_key (bucket_id ctl) (entry_sizing_id e) i
                 (entry_kind e)) (entry_data e)) w0"
      by (simp_all add: fanout_task_def)
    with M0 Inr cb0 show ?thesis by simp
  qed
qed

lemma fanout_task_inv:
  assumes contract: "storage_contract (storage ctl) \<alpha>"
    and inv: "world_inv (bucket_id ctl) \<alpha> w" and cb: "cache_backend w \<noteq> Some GlobalCache"
    and run: "fanout_task ctl i e w = (r, w')"
  shows "world_inv (bucket_id ctl) \<alpha> w'"
proof -
  let ?b = "bucket_id ctl"
  note eff = fanout_task_storage [OF contract run]
  show ?thesis
  proof (cases "cache_backend w")
    case None
    with eff show ?thesis by (simp add: world_inv_def)
  next
    case (Some cr)
    with cb have cr: "cr = BucketCache" by (cases cr) auto
    with Some obtain c where c: "bucket_cache w = Some c"
      by (auto simp: cache_backend_def split: if_splits)
    with inv Some cr have ca: "cache_agrees ?b (\<alpha> (storage_state w)) c"
      by (auto simp: world_inv_def the_cache_def)
    show ?thesis
    proof (cases r)
      case (Inl err)
      with run have "w' = w\<lparr>storage_state := storage_state w'\<rparr>"
        by (auto simp: fanout_task_def storage_op_def qbind_def split: prod.splits sum.splits)
      with eff Inl inv show ?thesis
        by (metis world_inv_storage_same sum.simps(5))
    next
      case (Inr u)
      let ?f = "cache_insert (cache_key ?b (entry_sizing_id e) i (entry_kind e)) (entry_data e)"
      from run Inr have "bucket_cache w' = Some (?f c)"
        by (auto simp: fanout_task_def storage_op_def map_cache_def c qbind_def
            split: prod.splits sum.splits)
      moreover have "cache_agrees ?b (\<alpha> (storage_state w')) (?f c)"
        using eff Inr ca cache_agrees_insert [of ?b "\<alpha> (storage_state w)" c]
        by (auto simp: entry_key_def)
      ultimately show ?thesis
        using eff Some cr by (auto simp: world_inv_def the_cache_def)
    qed
  qed
qed

lemma run_tasks_storage:
  assumes contract: "storage_contract (storage ctl) \<alpha>"
    and run: "run_tasks ctl i es w = (rs, w')"
  shows "length rs = length es \<and> cache_backend w' = cache_backend w \<and>
    \<alpha> (storage_state w') = apply_results (bucket_id ctl) i es rs (\<alpha> (storage_state w))"
  using run
proof (induction es arbitrary: w rs w')
  case Nil
  then show ?case by (simp add: apply_results_def)
next
  case (Cons e es)
  obtain r1 w1 where t: "fanout_task ctl i e w = (r1, w1)" by fastforce
  obtain rs2 w2 where rest: "run_tasks ctl i es w1 = (rs2, w2)" by fastforce
  from Cons.prems t rest have rs: "rs = r1 # rs2" and w': "w' = w2" by simp_all
  note eff = fanout_task_storage [OF contract t]
  from Cons.IH [OF rest] eff rs w' show ?case
    by (auto simp: apply_results_def split: sum.splits)
qed

lemma run_tasks_inv:
  assumes contract: "storage_contract (storage ctl) \<alpha>"
    and inv: "world_inv (bucket_id ctl) \<alpha> w" and cb: "cache_backend w \<noteq> Some GlobalCache"
    and run: "run_tasks ctl i es w = (rs, w')"
  shows "world_inv (bucket_id ctl) \<alpha> w'"
  using inv cb run
proof (induction es arbitrary: w rs w')
  case Nil
  then show ?case by simp
next
  case (Cons e es)
  obtain r1 w1 where t: "fanout_task ctl i e w = (r1, w1)" by fastforce
  obtain rs2 w2 where rest: "run_tasks ctl i es w1 = (rs2, w2)" by fastforce
  from Cons.prems t rest have w': "w' = w2" by simp
  have "world_inv (bucket_id ctl) \<alpha> w1"
    by (rule fanout_task_inv [OF contract Cons.prems(1,2) t])
  moreover have "cache_backend w1 \<noteq> Some GlobalCache"
    using fanout_task_storage [OF contract t] Cons.prems(2) by simp
  ultimately show ?case using Cons.IH rest w' by blast
qed

lemma apply_results_all_ok:
  "length rs = length es \<Longrightarrow> \<forall>r \<in> set rs. \<not> isl r \<Longrightarrow> apply_results b i es rs M = store_all b i es M"
proof (induction es arbitrary: rs M)
  case Nil
  then show ?case by (simp add: apply_results_def store_all_def)
next
  case (Cons e es)
  then obtain r rs' where "rs = r # rs'" by (cases rs) auto
  with Cons show ?case
    by (auto simp: apply_results_def store_all_def split: sum.splits)
qed

lemma fanout_task_fails:
  assumes fails: "store_fails (storage ctl) F" and run: "fanout_task ctl i e w = (r, w')"
  shows "isl r = F (storage_state w) (entry_key (bucket_id ctl) i e) \<and>
    F (storage_state w') = F (storage_state w)"
proof -
  obtain r0 st0 where s: "sb_store (storage ctl) (bucket_id ctl) i (entry_kind e) (entry_sizing_id e)
      (entry_data e) (storage_state w) = (r0, st0)" by fastforce
  note f = fails [unfolded store_fails_def, rule_format, where b = "bucket_id ctl" and i = i
      and k = "entry_kind e" and s = "entry_sizing_id e" and d = "entry_data e" and st = "storage_state w"]
  from f s have "isl r0 = F (storage_state w) (entry_key (bucket_id ctl) i e)" "F st0 = F (storage_state w)"
    by (simp_all add: entry_key_def)
  moreover from run s have "isl r = isl r0" "storage_state w' = st0"
    by (cases r0; auto simp: fanout_task_def storage_op_def map_cache_def)+
  ultimately show ?thesis by simp
qed

lemma run_tasks_fails:
  assumes fails: "store_fails (storage ctl) F" and run: "run_tasks ctl i es w = (rs, w')"
  shows "map isl rs = map (\<lambda>e. F (storage_state w) (entry_key (bucket_id ctl) i e)) es \<and>
    F (storage_state w') = F (storage_state w)"
  using run
proof (induction es arbitrary: w rs w')
  case Nil
  then show ?case by simp
next
  case (Cons e es)
  obtain r1 w1 where t: "fanout_task ctl i e w = (r1, w1)" by fastforce
  obtain rs2 w2 where rest: "run_tasks ctl i es w1 = (rs2, w2)" by fastforce
  from Cons.prems t rest have "rs = r1 # rs2" "w' = w2" by simp_all
  with Cons.IH [OF rest] fanout_task_fails [OF fails t] show ?case by simp
qed

lemma apply_results_filter:
  "map isl rs = map P es \<Longrightarrow> apply_results b i es rs M = store_all b i (filter (\<lambda>e. \<not> P e) es) M"
proof (induction es arbitrary: rs M)
  case Nil
  then show ?case by (simp add: apply_results_def store_all_def)
next
  case (Cons e es)
  then obtain r rs' where "rs = r # rs'" by (cases rs) auto
  with Cons show ?case
    by (auto simp: apply_results_def store_all_def split: sum.splits)
qed

lemma map_isl_all:
  "map isl rs = map P es \<Longrightarrow> (\<forall>x \<in> set rs. \<not> isl x) \<longleftrightarrow> (\<forall>e \<in> set es. \<not> P e)"
  by (metis (mono_tags, lifting) image_iff list.set_map)

subsection \<open>Properties of the fan-out\<close>

lemma concurrent_upload_effect:
  assumes "storage_contract (storage ctl) \<alpha>" and "store_fails (storage ctl) F"
    and "concurrent_upload ctl i es w = (r, w')"
  shows "\<alpha> (storage_state w') = store_all (bucket_id ctl) i
      (filter (\<lambda>e. \<not> F (storage_state w) (entry_key (bucket_id ctl) i e)) es) (\<alpha> (storage_state w)) \<and>
    (r = Inr (map entry_sizing_id es) \<longleftrightarrow>
      (\<forall>e \<in> set es. \<not> F (storage_state w) (entry_key (bucket_id ctl) i e))) \<and>
    (isl r \<longleftrightarrow> (\<exists>e \<in> set es. F (storage_state w) (entry_key (bucket_id ctl) i e)))"
proof -
  obtain rs w2 where rt: "run_tasks ctl i es w = (rs, w2)" by fastforce
  note eff = run_tasks_storage [OF assms(1) rt]
  note fl = run_tasks_fails [OF assms(2) rt, THEN conjunct1]
  from assms(3) rt have w': "w' = w2"
    and r: "r = (case first_error rs of Some e \<Rightarrow> Inl e | None \<Rightarrow> Inr (map entry_sizing_id es))"
    by (simp_all add: concurrent_upload_def split: option.splits)
  have "(r = Inr (map entry_sizing_id es) \<longleftrightarrow> (\<forall>x \<in> set rs. \<not> isl x)) \<and>
      (\<forall>x \<in> set rs. \<not> isl x) = (\<not> isl r)"
    using r first_error_None_iff [of rs] by (auto split: option.splits)
  with eff w' apply_results_filter [OF fl] map_isl_all [OF fl] show ?thesis by auto
qed

text \<open>
  C4: no task is cancelled. Whatever the outcome, every task runs: the storage holds
  exactly the entries whose own store succeeded, applied in task order, also those
  after a failed one; the call succeeds, with the sizing id of every entry in
  order, iff every store succeeded.
\<close>

theorem concurrent_upload_no_cancellation:
  assumes "storage_contract (storage ctl) \<alpha>" and "store_fails (storage ctl) F"
    and "concurrent_upload ctl i es w = (r, w')"
  shows "\<alpha> (storage_state w') = store_all (bucket_id ctl) i
      (filter (\<lambda>e. \<not> F (storage_state w) (entry_key (bucket_id ctl) i e)) es) (\<alpha> (storage_state w)) \<and>
    (r = Inr (map entry_sizing_id es) \<longleftrightarrow>
      (\<forall>e \<in> set es. \<not> F (storage_state w) (entry_key (bucket_id ctl) i e))) \<and>
    (isl r \<longleftrightarrow> (\<exists>e \<in> set es. F (storage_state w) (entry_key (bucket_id ctl) i e)))"
  using assms by (rule concurrent_upload_effect)

subsection \<open>Delete\<close>

lemma storage_op_delete:
  assumes contract: "storage_contract B \<alpha>" and run: "storage_op (sb_delete B b i) w = (r, w')"
  shows "w' = w\<lparr>storage_state := storage_state w'\<rparr>"
    and "case r of Inl _ \<Rightarrow> \<alpha> (storage_state w') = \<alpha> (storage_state w)
         | Inr ps \<Rightarrow> \<alpha> (storage_state w') = purge (\<alpha> (storage_state w)) b i \<and>
                    image_keys (\<alpha> (storage_state w)) b i \<subseteq> set ps"
proof -
  obtain r1 st1 where s1: "sb_delete B b i (storage_state w) = (r1, st1)"
    by fastforce
  with run have r: "r = r1" and w': "w' = w\<lparr>storage_state := st1\<rparr>"
    by (auto simp: storage_op_def)
  then show "w' = w\<lparr>storage_state := storage_state w'\<rparr>" by simp
  note c = contract [unfolded storage_contract_def, THEN conjunct2, THEN conjunct2, rule_format,
      where b = b and i = i and st = "storage_state w"]
  with s1 r w' show "case r of Inl _ \<Rightarrow> \<alpha> (storage_state w') = \<alpha> (storage_state w)
         | Inr ps \<Rightarrow> \<alpha> (storage_state w') = purge (\<alpha> (storage_state w)) b i \<and>
                    image_keys (\<alpha> (storage_state w)) b i \<subseteq> set ps"
    by (simp split: sum.splits)
qed

lemma delete_body_correct:
  assumes contract: "storage_contract (storage ctl) \<alpha>"
    and inv: "world_inv (bucket_id ctl) \<alpha> w" and cb: "cache_backend w \<noteq> Some GlobalCache"
    and run: "delete_body ctl i w = (r, w')"
  shows "world_inv (bucket_id ctl) \<alpha> w' \<and>
    (case r of
       Inr _ \<Rightarrow> \<alpha> (storage_state w') = purge (\<alpha> (storage_state w)) (bucket_id ctl) i \<and>
                (\<forall>c s k. bucket_cache w' = Some c \<longrightarrow> cache_get (cache_key (bucket_id ctl) s i k) c = None)
     | Inl _ \<Rightarrow> \<alpha> (storage_state w') = \<alpha> (storage_state w) \<and>
                bucket_cache w' = bucket_cache w \<and> global_cache w' = global_cache w)"
proof -
  let ?b = "bucket_id ctl"
  obtain r1 w1 where d: "storage_op (sb_delete (storage ctl) ?b i) w = (r1, w1)"
    by fastforce
  note w1 = storage_op_delete(1) [OF contract d]
  note M1 = storage_op_delete(2) [OF contract d]
  show ?thesis
  proof (cases r1)
    case (Inl err)
    with run d have "r = Inl err" "w' = w1" by (simp_all add: delete_body_def)
    moreover from Inl M1 have "world_inv ?b \<alpha> w1"
      by (subst w1) (rule world_inv_storage_same [OF inv], simp)
    moreover have "bucket_cache w1 = bucket_cache w" "global_cache w1 = global_cache w"
      by (subst w1, simp)+
    ultimately show ?thesis using M1 Inl by simp
  next
    case (Inr ps)
    let ?f = "\<lambda>c. fold (\<lambda>(sizing_id, kind). cache_invalidate (cache_key ?b sizing_id i kind)) ps c"
    from run d Inr have r: "r = Inr ()" and w': "w' = map_cache BucketCache ?f w1"
      by (simp_all add: delete_body_def)
    from M1 Inr have M': "\<alpha> (storage_state w') = purge (\<alpha> (storage_state w)) ?b i"
      and keys: "image_keys (\<alpha> (storage_state w)) ?b i \<subseteq> set ps"
      by (simp_all add: w')
    have cb1: "cache_backend w' = cache_backend w"
      by (subst w', subst w1) simp
    have inv': "world_inv ?b \<alpha> w'"
    proof (cases "cache_backend w")
      case None
      with cb1 show ?thesis by (simp add: world_inv_def)
    next
      case (Some cr)
      with cb have cr: "cr = BucketCache" by (cases cr) auto
      with Some obtain c where c: "bucket_cache w = Some c"
        by (auto simp: cache_backend_def split: if_splits)
      with inv Some cr have "cache_agrees ?b (\<alpha> (storage_state w)) c"
        by (auto simp: world_inv_def the_cache_def)
      then have "cache_agrees ?b (\<alpha> (storage_state w')) (?f c)"
        using M' keys cache_agrees_purge by simp
      moreover have "the_cache BucketCache w' = Some (?f c)"
        by (subst w', subst w1) (simp add: the_cache_def map_cache_def c)
      ultimately show ?thesis
        using cb1 Some cr by (auto simp: world_inv_def)
    qed
    have gone: "cache_get (cache_key ?b s i k) c = None" if "bucket_cache w' = Some c" for c s k
    proof (rule ccontr)
      assume "cache_get (cache_key ?b s i k) c \<noteq> None"
      then obtain v where v: "cache_get (cache_key ?b s i k) c = Some v" by blast
      from that have "cache_backend w' = Some BucketCache" "the_cache BucketCache w' = Some c"
        by (simp_all add: cache_backend_def the_cache_def)
      with inv' v have "\<alpha> (storage_state w') (?b, i, k, s) = Some v"
        by (auto simp: world_inv_def cache_agrees_def)
      with M' show False by (simp add: purge_def)
    qed
    from inv' M' gone r show ?thesis by simp
  qed
qed

text \<open>
  C5: when the bucket reads its own cache (or none), a successful delete purges
  every variant of the image from the storage, leaves no entry of the image in the
  bucket's cache under any sizing id and kind, and keeps the agreement; a failed
  delete changes neither the storage contents nor the caches.
\<close>

theorem delete_purges_and_invalidates:
  assumes contract: "storage_contract (storage ctl) \<alpha>"
    and inv: "world_inv (bucket_id ctl) \<alpha> w" and cb: "cache_backend w \<noteq> Some GlobalCache"
    and run: "delete_body ctl i w = (r, w')"
  shows "world_inv (bucket_id ctl) \<alpha> w' \<and>
    (case r of
       Inr _ \<Rightarrow> \<alpha> (storage_state w') = purge (\<alpha> (storage_state w)) (bucket_id ctl) i \<and>
                (\<forall>c s k. bucket_cache w' = Some c \<longrightarrow> cache_get (cache_key (bucket_id ctl) s i k) c = None)
     | Inl _ \<Rightarrow> \<alpha> (storage_state w') = \<alpha> (storage_state w) \<and>
                bucket_cache w' = bucket_cache w \<and> global_cache w' = global_cache w)"
  using assms by (rule delete_body_correct)

text \<open>
  C6: \<open>delete\<close> never invalidates the process-wide cache. A bucket without a cache
  of its own reads through that cache, so once a variant is there, a delete leaves
  it, and the next cache-aside read of the variant returns the deleted bytes without
  asking the storage, whatever the storage now holds.
\<close>

theorem delete_leaves_global_cache_stale:
  assumes nocache: "bucket_cache w = None" and g: "global_cache w = Some c"
    and hit: "cache_get (cache_key (bucket_id ctl) s i k) c = Some v"
    and del: "delete_body ctl i w = (Inr (), w')"
  shows "global_cache w' = Some c \<and> fst (caching_fetch ctl i k s w') = Inr (Some v)"
proof -
  from del nocache have "global_cache w' = global_cache w" "bucket_cache w' = bucket_cache w"
    by (auto simp: delete_body_def storage_op_def map_cache_def qbind_def split: prod.splits sum.splits)
  with nocache g have gw': "global_cache w' = Some c" and bw': "bucket_cache w' = None" by simp_all
  then have "cache_backend w' = Some GlobalCache" "the_cache GlobalCache w' = Some c"
    by (simp_all add: cache_backend_def the_cache_def)
  with hit gw' show ?thesis
    by (simp add: caching_fetch_def cache_read_eq Let_def)
qed

subsection \<open>The pipeline hooks a call invokes\<close>

lemma hook_log_caching_fetch: "hook_log (snd (caching_fetch ctl i k s w)) = hook_log w"
  by (auto simp: caching_fetch_def cache_read_def storage_op_def qbind_def Let_def
      split: option.splits prod.splits sum.splits)

lemma hook_log_fanout_task: "hook_log (snd (fanout_task ctl i e w)) = hook_log w"
  by (auto simp: fanout_task_def storage_op_def qbind_def split: prod.splits sum.splits)

lemma hook_log_run_tasks: "hook_log (snd (run_tasks ctl i es w)) = hook_log w"
proof (induction es arbitrary: w)
  case Nil
  then show ?case by simp
next
  case (Cons e es)
  then show ?case
    by (metis (no_types, lifting) case_prod_beta hook_log_fanout_task run_tasks.simps(2) snd_conv)
qed

lemma hook_log_concurrent_upload: "hook_log (snd (concurrent_upload ctl i es w)) = hook_log w"
  using hook_log_run_tasks [of ctl i es w]
  by (auto simp: concurrent_upload_def split: prod.splits option.splits)

lemma hook_log_fetch_finish:
  "hook_log (snd (fetch_finish ctl i k s c d rk w)) =
     (if mode (config ctl) = Aot then hook_log w else hook_log w @ [OnFetch])"
proof (cases "mode (config ctl) = Aot")
  case True
  then show ?thesis by (simp add: fetch_finish_def)
next
  case False
  show ?thesis
  proof (cases "on_fetch (pipeline ctl) k rk d s c")
    case (Inl e)
    with False show ?thesis by (simp add: fetch_finish_def Let_def)
  next
    case (Inr res)
    obtain x w2 where cu: "concurrent_upload ctl i (to_store res) (log_hook OnFetch w) = (x, w2)"
      by fastforce
    from hook_log_concurrent_upload [of ctl i "to_store res" "log_hook OnFetch w"] cu
    have "hook_log w2 = hook_log w @ [OnFetch]" by simp
    with False Inr cu show ?thesis
      by (cases x) (simp_all add: fetch_finish_def Let_def)
  qed
qed

lemma caching_fetch_ok:
  "caching_fetch ctl i k s w = (r, w1) \<Longrightarrow> hook_log w1 = hook_log w"
  using hook_log_caching_fetch [of ctl i k s w] by simp

subsection \<open>Admission\<close>

text \<open>
  C7: a global limiter takes strict precedence: with one configured, admission does
  not depend on the local limiter at all (whatever it is, even one that would never
  admit), and the call waits exactly when the global semaphore is open with no free
  permit.
\<close>

theorem global_limiter_takes_precedence:
  assumes "global_limiter ctl = Some g"
  shows "with_permit (ctl\<lparr>limiter := l\<rparr>) body w = with_permit ctl body w \<and>
    (with_permit ctl body w = None \<longleftrightarrow> \<not> closed g \<and> permits g = 0)"
  using assms by (simp add: with_permit_def get_optional_permit_def acquire_def)

text \<open>
  C8: a bucket configured with \<open>max_concurrency = Some 0\<close> and no global limiter gets
  a semaphore with no permits: every upload, fetch and delete waits for ever.
\<close>

theorem zero_max_concurrency_blocks:
  assumes "max_concurrency cfg = Some 0"
  shows "upload D (bucket_controller_new b None cfg p st) kind data w = None \<and>
    fetch (bucket_controller_new b None cfg p st) i k preset custom w = None \<and>
    delete (bucket_controller_new b None cfg p st) i w = None"
  using assms
  by (simp add: upload_def fetch_def delete_def with_permit_def get_optional_permit_def acquire_def
      bucket_controller_new_def semaphore_new_def)

subsection \<open>Fetch, mode by mode\<close>

lemma aot_fetch_correct:
  assumes contract: "storage_contract (storage ctl) \<alpha>"
    and inv: "world_inv (bucket_id ctl) \<alpha> w" and aot: "mode (config ctl) = Aot"
    and run: "fetch_body ctl i k p c w = (Inr r, w')"
  shows "hook_log w' = hook_log w \<and> world_inv (bucket_id ctl) \<alpha> w' \<and>
    r = map_option (\<lambda>d. \<lparr>entry_data = d, entry_kind = k, entry_sizing_id = resolve_sizing_id (config ctl) p\<rparr>)
          (\<alpha> (storage_state w) (bucket_id ctl, i, k, resolve_sizing_id (config ctl) p))"
proof -
  let ?s = "resolve_sizing_id (config ctl) p"
  obtain x w1 where cf: "caching_fetch ctl i k ?s w = (x, w1)" by fastforce
  from run cf aot obtain m where x: "x = Inr m"
    by (cases x) (auto simp: fetch_body_def Let_def)
  from caching_fetch_correct [OF contract inv cf [unfolded x]]
  have m: "m = \<alpha> (storage_state w) (bucket_id ctl, i, k, ?s)" and inv1: "world_inv (bucket_id ctl) \<alpha> w1"
    by simp_all
  from run cf x aot have "r = map_option (\<lambda>d. \<lparr>entry_data = d, entry_kind = k, entry_sizing_id = ?s\<rparr>) m"
    and "w' = w1"
    by (auto simp: fetch_body_def fetch_finish_def Let_def split: option.splits)
  with m inv1 caching_fetch_ok [OF cf] show ?thesis by simp
qed

text \<open>
  C9: in ahead-of-time mode a fetch never invokes the fetch hook; when it succeeds
  it returns exactly the bytes the storage holds for the requested kind at the
  resolved sizing id (or nothing when there are none), labelled with that kind and
  sizing id, and it keeps the agreement invariant.
\<close>

theorem aot_fetch_serves_stored_variant:
  assumes "storage_contract (storage ctl) \<alpha>"
    and "world_inv (bucket_id ctl) \<alpha> w" and "mode (config ctl) = Aot"
    and "fetch_body ctl i k p c w = (Inr r, w')"
  shows "hook_log w' = hook_log w \<and> world_inv (bucket_id ctl) \<alpha> w' \<and>
    r = map_option (\<lambda>d. \<lparr>entry_data = d, entry_kind = k, entry_sizing_id = resolve_sizing_id (config ctl) p\<rparr>)
          (\<alpha> (storage_state w) (bucket_id ctl, i, k, resolve_sizing_id (config ctl) p))"
  using assms by (rule aot_fetch_correct)

text \<open>
  C10: in just-in-time mode a fetch whose requested variant is served by the
  cache-aside read still invokes the fetch hook, once, whatever the hook then does:
  the variant is not memoised against the hook, contrary to the specification's
  "retrievable on a second fetch without a further invocation".
\<close>

theorem jit_fetch_hit_invokes_hook:
  assumes jit: "mode (config ctl) = Jit"
    and hit: "caching_fetch ctl i k (resolve_sizing_id (config ctl) p) w = (Inr (Some d), w1)"
  shows "hook_log (snd (fetch_body ctl i k p c w)) = hook_log w @ [OnFetch]"
proof -
  have "fetch_body ctl i k p c w = fetch_finish ctl i k (resolve_sizing_id (config ctl) p) c d k w1"
    using jit hit by (simp add: fetch_body_def Let_def)
  with jit caching_fetch_ok [OF hit] show ?thesis by (simp add: hook_log_fetch_finish)
qed

subsection \<open>Upload\<close>

lemma mem_backend_reliable: "fetch_reliable mem_backend"
  by (simp add: fetch_reliable_def mem_backend_def mem_fetch_def)

lemma caching_fetch_never_fails:
  "fetch_reliable (storage ctl) \<Longrightarrow> \<not> isl (fst (caching_fetch ctl i k s w))"
  unfolding fetch_reliable_def
  by (auto simp: caching_fetch_def cache_read_def storage_op_def qbind_def Let_def
      split: option.splits prod.splits sum.splits) (metis fst_conv sum.disc(1))+

subsection \<open>Realtime fetch\<close>

text \<open>
  C11: in realtime mode the read ignores the requested kind, the preset and the
  custom sizing: a fetch of an image whose original (the store format at sizing
  id \<open>0\<close>) the storage does not hold is "not found", not an error, for every
  requested kind and preset, and it invokes no pipeline hook; this needs a backend
  whose reads do not fail and the agreement invariant, so that no cache entry
  answers for the missing original.
\<close>

theorem realtime_fetch_without_original_not_found:
  assumes contract: "storage_contract (storage ctl) \<alpha>" and reliable: "fetch_reliable (storage ctl)"
    and inv: "world_inv (bucket_id ctl) \<alpha> w" and rt: "mode (config ctl) = Realtime"
    and absent: "\<alpha> (storage_state w) (bucket_id ctl, i, original_image_store_format (formats (config ctl)), 0) = None"
  shows "\<exists>w'. fetch_body ctl i k p c w = (Inr None, w') \<and> hook_log w' = hook_log w"
proof -
  let ?f = "original_image_store_format (formats (config ctl))"
  obtain x w1 where cf: "caching_fetch ctl i ?f 0 w = (x, w1)" by fastforce
  with caching_fetch_never_fails [OF reliable, of i ?f 0 w] obtain m where x: "x = Inr m"
    by (cases x) auto
  from caching_fetch_correct [OF contract inv cf [unfolded x]] absent have m: "m = None" by simp
  have "fetch_body ctl i k p c w = (Inr None, w1)"
    using rt cf x m by (simp add: fetch_body_def Let_def)
  with caching_fetch_ok [OF cf] show ?thesis by blast
qed

lemma store_all_other:
  "key \<notin> entry_key b i ` set es \<Longrightarrow> store_all b i es M key = M key"
  by (induction es arbitrary: M) (auto simp: store_all_def)

lemma store_all_lookup:
  assumes "e \<in> set es" and "\<forall>e' \<in> set es. entry_key b i e' = entry_key b i e \<longrightarrow> e' = e"
  shows "store_all b i es M (entry_key b i e) = Some (entry_data e)"
  using assms
proof (induction es arbitrary: M)
  case Nil
  then show ?case by simp
next
  case (Cons x xs)
  show ?case
  proof (cases "e \<in> set xs")
    case True
    with Cons show ?thesis by (simp add: store_all_def)
  next
    case False
    with Cons.prems have x: "x = e" by simp
    with Cons.prems False have "entry_key b i e \<notin> entry_key b i ` set xs" by auto
    with x show ?thesis by (simp add: store_all_def store_all_other [unfolded store_all_def])
  qed
qed

lemma concurrent_upload_ok:
  assumes "storage_contract (storage ctl) \<alpha>" and "concurrent_upload ctl i es w = (Inr infos, w')"
  shows "infos = map entry_sizing_id es \<and>
    \<alpha> (storage_state w') = store_all (bucket_id ctl) i es (\<alpha> (storage_state w))"
proof -
  obtain rs w2 where rt: "run_tasks ctl i es w = (rs, w2)" by fastforce
  note eff = run_tasks_storage [OF assms(1) rt]
  from assms(2) rt have w': "w' = w2" and ok: "first_error rs = None" and inf: "infos = map entry_sizing_id es"
    by (auto simp: concurrent_upload_def split: option.splits)
  from ok have "\<forall>r \<in> set rs. \<not> isl r" by (simp add: first_error_None_iff)
  with eff w' inf show ?thesis by (simp add: apply_results_all_ok)
qed

lemma upload_body_ok:
  assumes contract: "storage_contract (storage ctl) \<alpha>"
    and up: "on_upload (pipeline ctl) kind data = Inr res"
    and run: "upload_body D ctl kind data w = (Inr info, w')"
  shows "info = \<lparr>info_image_id = sha256_hash D data, info_checksum = crc32_hash data,
                 info_images = map entry_sizing_id (to_store res), info_bucket_id = bucket_id ctl\<rparr> \<and>
    \<alpha> (storage_state w') = store_all (bucket_id ctl) (sha256_hash D data) (to_store res) (\<alpha> (storage_state w)) \<and>
    hook_log w' = hook_log w @ [OnUpload] \<and>
    (world_inv (bucket_id ctl) \<alpha> w \<longrightarrow> cache_backend w \<noteq> Some GlobalCache \<longrightarrow> world_inv (bucket_id ctl) \<alpha> w')"
proof -
  let ?i = "sha256_hash D data" and ?w1 = "log_hook OnUpload w"
  obtain x w2 where cu: "concurrent_upload ctl ?i (to_store res) ?w1 = (x, w2)" by fastforce
  from run up cu obtain infos where x: "x = Inr infos" and w': "w' = w2"
    and info: "info = \<lparr>info_image_id = ?i, info_checksum = crc32_hash data,
                        info_images = infos, info_bucket_id = bucket_id ctl\<rparr>"
    by (cases x) (auto simp: upload_body_def Let_def)
  from concurrent_upload_ok [OF contract cu [unfolded x]] info w'
  have "info = \<lparr>info_image_id = ?i, info_checksum = crc32_hash data,
                 info_images = map entry_sizing_id (to_store res), info_bucket_id = bucket_id ctl\<rparr>"
    and "\<alpha> (storage_state w') = store_all (bucket_id ctl) ?i (to_store res) (\<alpha> (storage_state w))"
    by simp_all
  moreover have "hook_log w' = hook_log w @ [OnUpload]"
    using hook_log_concurrent_upload [of ctl ?i "to_store res" ?w1] cu w' by simp
  moreover have "world_inv (bucket_id ctl) \<alpha> w'"
    if "world_inv (bucket_id ctl) \<alpha> w" and "cache_backend w \<noteq> Some GlobalCache"
  proof -
    obtain rs w3 where rt: "run_tasks ctl ?i (to_store res) ?w1 = (rs, w3)" by fastforce
    with cu have "w2 = w3" by (auto simp: concurrent_upload_def split: option.splits)
    with run_tasks_inv [OF contract _ _ rt] that w' show ?thesis by simp
  qed
  ultimately show ?thesis by blast
qed

text \<open>
  C12: a successful upload reports the hex content hash of the bytes as the image
  id, their CRC-32 as the checksum, the bucket id and the sizing id of every entry
  of the upload hook's result, in order; the storage then holds every one of those
  entries under its variant key (a later entry wins a shared key), and the upload
  hook was invoked once.
\<close>

theorem upload_reports_and_stores:
  assumes "storage_contract (storage ctl) \<alpha>"
    and "on_upload (pipeline ctl) kind data = Inr res"
    and "upload_body D ctl kind data w = (Inr info, w')"
  shows "info = \<lparr>info_image_id = sha256_hash D data, info_checksum = crc32_hash data,
                 info_images = map entry_sizing_id (to_store res), info_bucket_id = bucket_id ctl\<rparr> \<and>
    \<alpha> (storage_state w') = store_all (bucket_id ctl) (sha256_hash D data) (to_store res) (\<alpha> (storage_state w)) \<and>
    hook_log w' = hook_log w @ [OnUpload]"
  using upload_body_ok [OF assms] by blast

lemma aot_fetch_body_ok:
  assumes "mode (config ctl) = Aot" and "fetch_reliable (storage ctl)"
  shows "\<exists>r w'. fetch_body ctl i k p c w = (Inr r, w')"
proof -
  let ?s = "resolve_sizing_id (config ctl) p"
  obtain x w1 where cf: "caching_fetch ctl i k ?s w = (x, w1)" by fastforce
  with caching_fetch_never_fails [OF assms(2), of i k ?s w] obtain m where "x = Inr m"
    by (cases x) auto
  with cf assms(1) show ?thesis
    by (cases m) (auto simp: fetch_body_def fetch_finish_def Let_def)
qed

lemma with_permit_admitted:
  "get_optional_permit (global_limiter ctl) (limiter ctl) = Some (Inr pm) \<Longrightarrow>
    with_permit ctl body w = Some (body w)"
  by (simp add: with_permit_def)


lemma with_permit_Inr:
  "with_permit ctl body w = Some (Inr x, w') \<Longrightarrow> body w = (Inr x, w')"
  by (auto simp: with_permit_def split: option.splits sum.splits)

lemma fetch_body_absent:
  assumes contract: "storage_contract (storage ctl) \<alpha>"
    and inv: "world_inv (bucket_id ctl) \<alpha> w"
    and absent: "\<forall>k s. \<alpha> (storage_state w) (bucket_id ctl, i, k, s) = None"
    and run: "fetch_body ctl i k p c w = (Inr r, w')"
  shows "r = None"
proof -
  let ?cfg = "config ctl"
  let ?fk = "if mode ?cfg = Realtime then original_image_store_format (formats ?cfg) else k"
  let ?sz = "if mode ?cfg = Realtime then 0 else resolve_sizing_id ?cfg p"
  obtain x w1 where cf: "caching_fetch ctl i ?fk ?sz w = (x, w1)" by fastforce
  from run cf obtain m where x: "x = Inr m"
    by (cases x) (auto simp: fetch_body_def Let_def)
  from caching_fetch_correct [OF contract inv cf [unfolded x]] absent
  have m: "m = None" and inv1: "world_inv (bucket_id ctl) \<alpha> w1"
    and st1: "storage_state w1 = storage_state w" by simp_all
  show ?thesis
  proof (cases "mode ?cfg = Jit")
    case False
    with run cf x m show ?thesis by (simp add: fetch_body_def Let_def)
  next
    case True
    let ?bk = "original_image_store_format (formats ?cfg)"
    obtain y w2 where cf2: "caching_fetch ctl i ?bk 0 w1 = (y, w2)" by fastforce
    from run cf x m True cf2 obtain m2 where y: "y = Inr m2"
      by (cases y) (auto simp: fetch_body_def Let_def)
    from caching_fetch_correct [OF contract inv1 cf2 [unfolded y]] absent st1
    have "m2 = None" by simp
    with run cf x m True cf2 y show ?thesis by (simp add: fetch_body_def Let_def)
  qed
qed


lemma store_all_mono: "M k \<noteq> None \<Longrightarrow> store_all b i es M k \<noteq> None"
  by (induction es arbitrary: M) (simp_all add: store_all_def)

lemma store_all_defined: "e \<in> set es \<Longrightarrow> store_all b i es M (entry_key b i e) \<noteq> None"
proof (induction es arbitrary: M)
  case Nil
  then show ?case by simp
next
  case (Cons e' es)
  show ?case
  proof (cases "e \<in> set es")
    case True
    with Cons.IH show ?thesis by (simp add: store_all_def)
  next
    case False
    with Cons.prems have "e' = e" by simp
    then show ?thesis
      using store_all_mono [of "M(entry_key b i e \<mapsto> entry_data e)" "entry_key b i e" b i es]
      by (simp add: store_all_def)
  qed
qed


lemma cache_backend_caching_fetch: "cache_backend (snd (caching_fetch ctl i k s w)) = cache_backend w"
  by (auto simp: caching_fetch_def cache_read_def storage_op_def Let_def qbind_def
      split: option.splits prod.splits sum.splits)

lemma fetch_finish_derived:
  assumes contract: "storage_contract (storage ctl) \<alpha>" and notaot: "mode (config ctl) \<noteq> Aot"
    and hook: "on_fetch (pipeline ctl) k rk d s c = Inr res"
    and run: "fetch_finish ctl i k s c d rk w = (Inr r, w')"
  shows "r = response res \<and>
    \<alpha> (storage_state w') = store_all (bucket_id ctl) i (to_store res) (\<alpha> (storage_state w)) \<and>
    hook_log w' = hook_log w @ [OnFetch] \<and>
    (world_inv (bucket_id ctl) \<alpha> w \<longrightarrow> cache_backend w \<noteq> Some GlobalCache \<longrightarrow>
       world_inv (bucket_id ctl) \<alpha> w')"
proof -
  let ?w1 = "log_hook OnFetch w"
  obtain x w2 where cu: "concurrent_upload ctl i (to_store res) ?w1 = (x, w2)" by fastforce
  from run notaot hook cu obtain infos where x: "x = Inr infos" and w': "w' = w2"
    and r: "r = response res"
    by (cases x) (auto simp: fetch_finish_def Let_def)
  from concurrent_upload_ok [OF contract cu [unfolded x]]
  have M: "\<alpha> (storage_state w') = store_all (bucket_id ctl) i (to_store res) (\<alpha> (storage_state w))"
    using w' by simp
  have h: "hook_log w' = hook_log w @ [OnFetch]"
    using hook_log_fetch_finish [of ctl i k s c d rk w] run notaot by simp
  have "world_inv (bucket_id ctl) \<alpha> w'"
    if "world_inv (bucket_id ctl) \<alpha> w" and "cache_backend w \<noteq> Some GlobalCache"
  proof -
    obtain rs w3 where rt: "run_tasks ctl i (to_store res) ?w1 = (rs, w3)" by fastforce
    with cu have "w2 = w3" by (auto simp: concurrent_upload_def split: option.splits)
    with run_tasks_inv [OF contract _ _ rt] that w' show ?thesis by simp
  qed
  with r M h show ?thesis by blast
qed

text \<open>
  C28: in just-in-time mode, a fetch of a variant the storage does not hold, of an
  image whose original it does hold, derives the variant: the fetch hook is
  invoked once on the original (in the store format, at sizing id \<open>0\<close>), its
  response is returned, and every entry it produced is then in the storage; the
  agreement invariant is kept. The entries the hook produces have distinct variant
  keys, so that by C24 the fan-out's effect is the same in every interleaving of
  its tasks.
\<close>

theorem jit_fetch_miss_derives_variant:
  assumes contract: "storage_contract (storage ctl) \<alpha>"
    and inv: "world_inv (bucket_id ctl) \<alpha> w" and cb: "cache_backend w \<noteq> Some GlobalCache"
    and jit: "mode (config ctl) = Jit"
    and absent: "\<alpha> (storage_state w) (bucket_id ctl, i, k, resolve_sizing_id (config ctl) p) = None"
    and orig: "\<alpha> (storage_state w) (bucket_id ctl, i, original_image_store_format (formats (config ctl)), 0)
                 = Some d"
    and hook: "on_fetch (pipeline ctl) k (original_image_store_format (formats (config ctl))) d
                 (resolve_sizing_id (config ctl) p) c = Inr res"
    and keys: "distinct (map (entry_key (bucket_id ctl) i) (to_store res))"
    and run: "fetch_body ctl i k p c w = (Inr r, w')"
  shows "r = response res \<and>
    \<alpha> (storage_state w') = store_all (bucket_id ctl) i (to_store res) (\<alpha> (storage_state w)) \<and>
    hook_log w' = hook_log w @ [OnFetch] \<and> world_inv (bucket_id ctl) \<alpha> w'"
proof -
  let ?s = "resolve_sizing_id (config ctl) p"
  let ?f = "original_image_store_format (formats (config ctl))"
  obtain x w1 where cf: "caching_fetch ctl i k ?s w = (x, w1)" by fastforce
  from run cf jit obtain m where x: "x = Inr m" by (cases x) (auto simp: fetch_body_def Let_def)
  note c1 = caching_fetch_correct [OF contract inv cf [unfolded x]]
  with absent have m: "m = None" and inv1: "world_inv (bucket_id ctl) \<alpha> w1"
    and st1: "storage_state w1 = storage_state w" by simp_all
  obtain y w2 where cf2: "caching_fetch ctl i ?f 0 w1 = (y, w2)" by fastforce
  from run cf x m jit cf2 obtain m2 where y: "y = Inr m2"
    by (cases y) (auto simp: fetch_body_def Let_def)
  note c2 = caching_fetch_correct [OF contract inv1 cf2 [unfolded y]]
  with orig st1 have m2: "m2 = Some d" and inv2: "world_inv (bucket_id ctl) \<alpha> w2"
    and st2: "storage_state w2 = storage_state w" by simp_all
  have ff: "fetch_finish ctl i k ?s c d ?f w2 = (Inr r, w')"
    using run cf x m jit cf2 y m2 by (simp add: fetch_body_def Let_def)
  have cb2: "cache_backend w2 \<noteq> Some GlobalCache"
    using cb cache_backend_caching_fetch [of ctl i k ?s w] cache_backend_caching_fetch [of ctl i ?f 0 w1]
      cf cf2 by simp
  have hl: "hook_log w2 = hook_log w" using caching_fetch_ok [OF cf] caching_fetch_ok [OF cf2] by simp
  from fetch_finish_derived [OF contract _ hook ff] jit inv2 cb2 st2 hl show ?thesis by simp
qed


lemma store_all_perm:
  assumes "mset es' = mset es" and "distinct (map (entry_key b i) es)"
  shows "store_all b i es' M = store_all b i es M"
proof -
  have "inj_on (entry_key b i) (set es)" using assms(2) by (simp add: distinct_map)
  then have "(\<lambda>M. M(entry_key b i x \<mapsto> entry_data x)) \<circ> (\<lambda>M. M(entry_key b i y \<mapsto> entry_data y)) =
      (\<lambda>M. M(entry_key b i y \<mapsto> entry_data y)) \<circ> (\<lambda>M. M(entry_key b i x \<mapsto> entry_data x))"
    if "x \<in> set es'" "y \<in> set es'" for x y
    using that assms(1) by (cases "x = y") (auto simp: fun_eq_iff inj_on_def dest: mset_eq_setD)
  then have "fold (\<lambda>e M. M(entry_key b i e \<mapsto> entry_data e)) es' =
      fold (\<lambda>e M. M(entry_key b i e \<mapsto> entry_data e)) es"
    using assms(1) by (intro fold_multiset_equiv) simp_all
  then show ?thesis by (simp add: store_all_def)
qed

text \<open>
  C32: the order of the fan-out's tasks does not matter when the entries have
  distinct variant keys: the spawned tasks may finish in any order, and every order
  leaves the same storage contents and the same success or failure of the call.
\<close>

theorem concurrent_upload_order_independent:
  assumes contract: "storage_contract (storage ctl) \<alpha>" and fails: "store_fails (storage ctl) F"
    and perm: "mset es' = mset es" and keys: "distinct (map (entry_key (bucket_id ctl) i) es)"
    and run: "concurrent_upload ctl i es w = (r, w1)" and run': "concurrent_upload ctl i es' w = (r', w1')"
  shows "\<alpha> (storage_state w1') = \<alpha> (storage_state w1) \<and> isl r' = isl r"
proof -
  let ?P = "\<lambda>e. \<not> F (storage_state w) (entry_key (bucket_id ctl) i e)"
  note e = concurrent_upload_effect [OF contract fails run]
  note e' = concurrent_upload_effect [OF contract fails run']
  have "mset (filter ?P es') = mset (filter ?P es)" using perm by (simp add: mset_filter)
  moreover have "distinct (map (entry_key (bucket_id ctl) i) (filter ?P es))"
    using keys by (simp add: distinct_map_filter)
  ultimately have "store_all (bucket_id ctl) i (filter ?P es') (\<alpha> (storage_state w)) =
      store_all (bucket_id ctl) i (filter ?P es) (\<alpha> (storage_state w))"
    by (rule store_all_perm)
  moreover have "set es' = set es" using perm by (metis set_mset_mset)
  ultimately show ?thesis using e e' by simp
qed


subsection \<open>Ahead-of-time reads of stored variants\<close>

lemma aot_fetch_returns_stored:
  assumes contract: "storage_contract (storage ctl) \<alpha>" and reliable: "fetch_reliable (storage ctl)"
    and inv: "world_inv (bucket_id ctl) \<alpha> w" and aot: "mode (config ctl) = Aot"
    and admit: "get_optional_permit (global_limiter ctl) (limiter ctl) = Some (Inr pm)"
    and stored: "\<alpha> (storage_state w) (bucket_id ctl, i, k, resolve_sizing_id (config ctl) p) = Some d"
  shows "\<exists>w2. fetch ctl i k p c w =
      Some (Inr (Some \<lparr>entry_data = d, entry_kind = k, entry_sizing_id = resolve_sizing_id (config ctl) p\<rparr>), w2) \<and>
    hook_log w2 = hook_log w"
proof -
  obtain r w2 where fb: "fetch_body ctl i k p c w = (Inr r, w2)"
    using aot_fetch_body_ok [OF aot reliable] by blast
  from aot_fetch_correct [OF contract inv aot fb] stored
  have "hook_log w2 = hook_log w"
    and "r = Some \<lparr>entry_data = d, entry_kind = k, entry_sizing_id = resolve_sizing_id (config ctl) p\<rparr>"
    by simp_all
  with fb admit show ?thesis by (simp add: fetch_def with_permit_admitted)
qed

lemma entry_key_uniq:
  assumes "distinct (map entry_sizing_id es)" and "\<forall>e \<in> set es. entry_kind e = f" and "e \<in> set es"
  shows "\<forall>e' \<in> set es. entry_key b i e' = entry_key b i e \<longrightarrow> e' = e"
  using assms by (auto simp: entry_key_def distinct_map inj_on_def)


lemma store_all_last: "store_all b i (es @ [e]) M (entry_key b i e) = Some (entry_data e)"
  by (simp add: store_all_def)

end
