(* ===== verification/Admission.thy ===== *)
theory Admission
  imports Controller
begin

text \<open>
  Admission control across concurrent calls (\<open>get_optional_permit\<close> and the
  permit's lifetime in \<open>upload\<close>, \<open>fetch\<close> and \<open>delete\<close>,
  \<open>src/src/controller.rs\<close>). Many calls, on any buckets, run at once; each
  resolves the semaphore it needs exactly as \<open>get_optional_permit\<close> does (the
  global one if configured, else its bucket's local one, else none), waits until a
  permit is free, holds it for the whole call and releases it on every exit. The
  semaphores are shared: one global, one local per bucket.
  \<^item> \<open>adm_config\<close>: which limiters exist and their capacities;
  \<open>limiter_for\<close>: the semaphore a call on a bucket acquires;
  \<^item> \<open>adm_state\<close>: the free permits of each semaphore and the calls with their
    phase (\<open>Pending\<close>, \<open>Waiting\<close>, \<open>Holding\<close>, \<open>Finished\<close>);
  \<^item> \<open>adm_step\<close>: arrival of a call, start (acquire nothing or begin to wait),
    acquisition of a free permit, release; \<open>adm_reachable\<close>: the states reachable
    from no calls and full semaphores.
  The invariant \<open>adm_inv\<close> counts permits: for each semaphore, free permits plus
  holders equal its capacity, and a call holds only the semaphore it resolved.
\<close>

datatype sem_id = Global | Local u32

record adm_config =
  global_cap :: "nat option"
  local_cap :: "u32 \<Rightarrow> nat option"

datatype phase = Pending | Waiting | Holding "sem_id option" | Finished

record call =
  call_bucket :: u32
  call_phase :: phase

record adm_state =
  avail :: "sem_id \<Rightarrow> nat"
  calls :: "call list"

definition limiter_for :: "adm_config \<Rightarrow> u32 \<Rightarrow> sem_id option" where
  "limiter_for cfg b =
     (case global_cap cfg of
        Some _ \<Rightarrow> Some Global
      | None \<Rightarrow> (case local_cap cfg b of Some _ \<Rightarrow> Some (Local b) | None \<Rightarrow> None))"

definition cap :: "adm_config \<Rightarrow> sem_id \<Rightarrow> nat" where
  "cap cfg sid =
     (case sid of
        Global \<Rightarrow> (case global_cap cfg of Some n \<Rightarrow> n | None \<Rightarrow> 0)
      | Local b \<Rightarrow> (case local_cap cfg b of Some n \<Rightarrow> n | None \<Rightarrow> 0))"

definition adm_init :: "adm_config \<Rightarrow> adm_state" where
  "adm_init cfg = \<lparr>avail = cap cfg, calls = []\<rparr>"

definition set_phase :: "nat \<Rightarrow> phase \<Rightarrow> adm_state \<Rightarrow> adm_state" where
  "set_phase i p s = s\<lparr>calls := (calls s)[i := (calls s ! i)\<lparr>call_phase := p\<rparr>]\<rparr>"

definition release_permit :: "sem_id option \<Rightarrow> (sem_id \<Rightarrow> nat) \<Rightarrow> (sem_id \<Rightarrow> nat)" where
  "release_permit h av = (case h of None \<Rightarrow> av | Some sid \<Rightarrow> av(sid := Suc (av sid)))"

inductive adm_step :: "adm_config \<Rightarrow> adm_state \<Rightarrow> adm_state \<Rightarrow> bool" where
  arrive: "adm_step cfg s (s\<lparr>calls := calls s @ [\<lparr>call_bucket = b, call_phase = Pending\<rparr>]\<rparr>)"
| start_free: "i < length (calls s) \<Longrightarrow> call_phase (calls s ! i) = Pending \<Longrightarrow>
    limiter_for cfg (call_bucket (calls s ! i)) = None \<Longrightarrow>
    adm_step cfg s (set_phase i (Holding None) s)"
| start_wait: "i < length (calls s) \<Longrightarrow> call_phase (calls s ! i) = Pending \<Longrightarrow>
    limiter_for cfg (call_bucket (calls s ! i)) = Some sid \<Longrightarrow>
    adm_step cfg s (set_phase i Waiting s)"
| acquire_permit: "i < length (calls s) \<Longrightarrow> call_phase (calls s ! i) = Waiting \<Longrightarrow>
    limiter_for cfg (call_bucket (calls s ! i)) = Some sid \<Longrightarrow> 0 < avail s sid \<Longrightarrow>
    adm_step cfg s ((set_phase i (Holding (Some sid)) s)\<lparr>avail := (avail s)(sid := avail s sid - 1)\<rparr>)"
| release: "i < length (calls s) \<Longrightarrow> call_phase (calls s ! i) = Holding h \<Longrightarrow>
    adm_step cfg s ((set_phase i Finished s)\<lparr>avail := release_permit h (avail s)\<rparr>)"

inductive adm_reachable :: "adm_config \<Rightarrow> adm_state \<Rightarrow> bool" where
  init: "adm_reachable cfg (adm_init cfg)"
| step: "adm_reachable cfg s \<Longrightarrow> adm_step cfg s t \<Longrightarrow> adm_reachable cfg t"

definition holds :: "sem_id \<Rightarrow> call \<Rightarrow> bool" where
  "holds sid c \<longleftrightarrow> call_phase c = Holding (Some sid)"

definition holding :: "call \<Rightarrow> bool" where
  "holding c \<longleftrightarrow> (\<exists>h. call_phase c = Holding h)"

definition holders :: "adm_state \<Rightarrow> sem_id \<Rightarrow> nat" where
  "holders s sid = length (filter (holds sid) (calls s))"

definition adm_inv :: "adm_config \<Rightarrow> adm_state \<Rightarrow> bool" where
  "adm_inv cfg s \<longleftrightarrow>
     (\<forall>sid. avail s sid + holders s sid = cap cfg sid) \<and>
     (\<forall>c \<in> set (calls s). \<forall>h. call_phase c = Holding h \<longrightarrow> h = limiter_for cfg (call_bucket c))"

text \<open>
  The admission configuration a set of controllers induces: the shared global
  semaphore's permits and each bucket's local one (\<open>limiter\<close>, built from
  \<open>max_concurrency\<close> by \<open>BucketController::new\<close>), and the permit a
  controller's \<open>get_optional_permit\<close> returns for each semaphore.
\<close>

definition adm_config_of :: "semaphore option \<Rightarrow> (u32 \<Rightarrow> semaphore option) \<Rightarrow> adm_config" where
  "adm_config_of g ls = \<lparr>global_cap = map_option permits g, local_cap = (\<lambda>b. map_option permits (ls b))\<rparr>"

fun permit_kind :: "sem_id \<Rightarrow> permit" where
  "permit_kind Global = GlobalPermit"
| "permit_kind (Local _) = LocalPermit"

inductive_cases adm_stepE: "adm_step cfg s t"

subsection \<open>Counting holders\<close>

lemma length_filter_update:
  "i < length xs \<Longrightarrow>
    length (filter P (xs[i := x])) + (if P (xs ! i) then 1 else 0) =
    length (filter P xs) + (if P x then 1 else 0)"
proof (induction xs arbitrary: i)
  case Nil
  then show ?case by simp
next
  case (Cons y ys)
  then show ?case by (cases i) auto
qed

lemma holders_set_phase:
  "i < length (calls s) \<Longrightarrow>
    holders (set_phase i p s) sid + (if holds sid (calls s ! i) then 1 else 0) =
    holders s sid + (if p = Holding (Some sid) then 1 else 0)"
  using length_filter_update [of i "calls s" "holds sid" "(calls s ! i)\<lparr>call_phase := p\<rparr>"]
  by (simp add: holders_def set_phase_def holds_def)

lemma holders_arrive [simp]:
  "holders (s\<lparr>calls := calls s @ [\<lparr>call_bucket = b, call_phase = Pending\<rparr>]\<rparr>) sid = holders s sid"
  by (simp add: holders_def holds_def)

lemma holders_avail [simp]: "holders (s\<lparr>avail := a\<rparr>) sid = holders s sid"
  by (simp add: holders_def)

lemma set_phase_simps [simp]:
  "avail (set_phase i p s) = avail s"
  "length (calls (set_phase i p s)) = length (calls s)"
  by (simp_all add: set_phase_def)

lemma set_phase_calls:
  "c \<in> set (calls (set_phase i p s)) \<Longrightarrow> i < length (calls s) \<Longrightarrow>
    c = (calls s ! i)\<lparr>call_phase := p\<rparr> \<or> c \<in> set (calls s)"
  by (auto simp: set_phase_def dest: set_update_subset_insert [THEN subsetD])

subsection \<open>The invariant\<close>

lemma adm_inv_init: "adm_inv cfg (adm_init cfg)"
  by (simp add: adm_inv_def adm_init_def holders_def)

lemma adm_step_inv:
  assumes step: "adm_step cfg s t" and inv: "adm_inv cfg s"
  shows "adm_inv cfg t"
  using step
proof cases
  case (arrive b)
  with inv show ?thesis by (auto simp: adm_inv_def)
next
  case (start_free i)
  have h: "holders t sid = holders s sid" for sid
    using holders_set_phase [OF start_free(2), of "Holding None" sid] start_free
    by (simp add: holds_def)
  from inv start_free show ?thesis
    unfolding adm_inv_def using h by (auto dest!: set_phase_calls)
next
  case (start_wait i sid)
  have h: "holders t sid' = holders s sid'" for sid'
    using holders_set_phase [OF start_wait(2), of Waiting sid'] start_wait
    by (simp add: holds_def)
  from inv start_wait show ?thesis
    unfolding adm_inv_def using h by (auto dest!: set_phase_calls)
next
  case (acquire_permit i sid)
  have h: "holders t sid' = holders s sid' + (if sid' = sid then 1 else 0)" for sid'
    using holders_set_phase [OF acquire_permit(2), of "Holding (Some sid)" sid'] acquire_permit
    by (simp add: holds_def)
  have "avail t sid' + holders t sid' = cap cfg sid'" for sid'
  proof (cases "sid' = sid")
    case True
    have e: "avail s sid + holders s sid = cap cfg sid"
      using inv by (simp add: adm_inv_def)
    have "avail t sid = avail s sid - 1" "holders t sid = holders s sid + 1"
      using acquire_permit h [of sid] by simp_all
    with e \<open>0 < avail s sid\<close> have "avail t sid + holders t sid = cap cfg sid" by linarith
    with True show ?thesis by simp
  next
    case False
    with inv acquire_permit h show ?thesis by (simp add: adm_inv_def)
  qed
  with inv acquire_permit show ?thesis
    unfolding adm_inv_def by (auto dest!: set_phase_calls)
next
  case (release i h)
  have hc: "h = limiter_for cfg (call_bucket (calls s ! i))"
    using inv release by (auto simp: adm_inv_def)
  have hs: "holders t sid' + (if h = Some sid' then 1 else 0) = holders s sid'" for sid'
    using holders_set_phase [OF release(2), of Finished sid'] release
    by (simp add: holds_def)
  have ha: "avail t sid' = avail s sid' + (if h = Some sid' then 1 else 0)" for sid'
    using release by (cases h) (simp_all add: release_permit_def)
  have "avail t sid' + holders t sid' = cap cfg sid'" for sid'
  proof -
    have e: "avail s sid' + holders s sid' = cap cfg sid'"
      using inv by (simp add: adm_inv_def)
    show ?thesis
      using e ha [of sid'] hs [of sid'] by (cases "h = Some sid'") simp_all
  qed
  with inv release show ?thesis
    unfolding adm_inv_def by (auto dest!: set_phase_calls)
qed

lemma adm_reachable_inv: "adm_reachable cfg s \<Longrightarrow> adm_inv cfg s"
proof (induction rule: adm_reachable.induct)
  case init
  show ?case by (rule adm_inv_init)
next
  case (step s t)
  then show ?case by (blast intro: adm_step_inv)
qed

lemma adm_reachable_holders:
  "adm_reachable cfg s \<Longrightarrow> holders s sid \<le> cap cfg sid"
  using adm_reachable_inv [unfolded adm_inv_def] by (metis le_add2)

lemma adm_reachable_holding:
  "adm_reachable cfg s \<Longrightarrow> c \<in> set (calls s) \<Longrightarrow> call_phase c = Holding h \<Longrightarrow>
    h = limiter_for cfg (call_bucket c)"
  using adm_reachable_inv [unfolded adm_inv_def] by blast

lemma limiter_for_global: "global_cap cfg = Some n \<Longrightarrow> limiter_for cfg b = Some Global"
  by (simp add: limiter_for_def)

lemma limiter_for_local:
  "global_cap cfg = None \<Longrightarrow> local_cap cfg b = Some n \<Longrightarrow> limiter_for cfg b = Some (Local b)"
  by (simp add: limiter_for_def)

lemma holding_holds:
  assumes "adm_reachable cfg s"
    and "\<forall>c \<in> set (calls s). P c \<longrightarrow> limiter_for cfg (call_bucket c) = Some sid"
  shows "filter (\<lambda>c. holding c \<and> P c) (calls s) = filter (\<lambda>c. holds sid c \<and> P c) (calls s)"
proof (rule filter_cong [OF refl])
  fix c assume "c \<in> set (calls s)"
  then show "(holding c \<and> P c) = (holds sid c \<and> P c)"
    using adm_reachable_holding [OF assms(1)] assms(2) by (auto simp: holding_def holds_def)
qed

lemma length_filter_conj_le: "length (filter (\<lambda>x. P x \<and> Q x) xs) \<le> length (filter P xs)"
  by (induction xs) auto

subsection \<open>The controller resolves the semaphore of the model\<close>

lemma get_optional_permit_limiter_for:
  "get_optional_permit g (ls b) = Some (Inr p) \<Longrightarrow>
    p = map_option permit_kind (limiter_for (adm_config_of g ls) b)"
  by (auto simp: get_optional_permit_def limiter_for_def adm_config_of_def acquire_def
      split: option.splits if_splits)

subsection \<open>A run of two calls\<close>

text \<open>
  Two calls on buckets 1 and 2: the first waits for and takes a permit of its
  semaphore, the second starts waiting.
\<close>

lemma adm_two_calls_reachable:
  assumes l1: "limiter_for cfg 1 = Some sid" and l2: "limiter_for cfg 2 = Some sid'"
    and c: "0 < cap cfg sid"
  shows "adm_reachable cfg
    \<lparr>avail = (cap cfg)(sid := cap cfg sid - 1),
     calls = [\<lparr>call_bucket = 1, call_phase = Holding (Some sid)\<rparr>,
              \<lparr>call_bucket = 2, call_phase = Waiting\<rparr>]\<rparr>"
proof -
  let ?s1 = "\<lparr>avail = cap cfg, calls = [\<lparr>call_bucket = 1, call_phase = Pending\<rparr>]\<rparr>"
  let ?s2 = "\<lparr>avail = cap cfg, calls = [\<lparr>call_bucket = 1, call_phase = Pending\<rparr>,
               \<lparr>call_bucket = 2, call_phase = Pending\<rparr>]\<rparr>"
  let ?s3 = "\<lparr>avail = cap cfg, calls = [\<lparr>call_bucket = 1, call_phase = Waiting\<rparr>,
               \<lparr>call_bucket = 2, call_phase = Pending\<rparr>]\<rparr>"
  let ?s4 = "\<lparr>avail = (cap cfg)(sid := cap cfg sid - 1),
              calls = [\<lparr>call_bucket = 1, call_phase = Holding (Some sid)\<rparr>,
               \<lparr>call_bucket = 2, call_phase = Pending\<rparr>]\<rparr>"
  have "adm_reachable cfg (adm_init cfg)" by (rule adm_reachable.init)
  then have "adm_reachable cfg ((adm_init cfg)\<lparr>calls := calls (adm_init cfg) @
      [\<lparr>call_bucket = 1, call_phase = Pending\<rparr>]\<rparr>)"
    by (rule adm_reachable.step [OF _ adm_step.arrive])
  then have "adm_reachable cfg ?s1" by (simp add: adm_init_def)
  then have "adm_reachable cfg (?s1\<lparr>calls := calls ?s1 @ [\<lparr>call_bucket = 2, call_phase = Pending\<rparr>]\<rparr>)"
    by (rule adm_reachable.step [OF _ adm_step.arrive])
  then have r2: "adm_reachable cfg ?s2" by simp
  have "adm_step cfg ?s2 (set_phase 0 Waiting ?s2)"
    by (rule adm_step.start_wait [where sid = sid]) (simp_all add: l1)
  with r2 have "adm_reachable cfg (set_phase 0 Waiting ?s2)" by (rule adm_reachable.step)
  then have r3: "adm_reachable cfg ?s3" by (simp add: set_phase_def)
  have "adm_step cfg ?s3 ((set_phase 0 (Holding (Some sid)) ?s3)
      \<lparr>avail := (avail ?s3)(sid := avail ?s3 sid - 1)\<rparr>)"
    by (rule adm_step.acquire_permit) (simp_all add: l1 c)
  with r3 have "adm_reachable cfg ((set_phase 0 (Holding (Some sid)) ?s3)
      \<lparr>avail := (avail ?s3)(sid := avail ?s3 sid - 1)\<rparr>)" by (rule adm_reachable.step)
  then have r4: "adm_reachable cfg ?s4" by (simp add: set_phase_def)
  have "adm_step cfg ?s4 (set_phase 1 Waiting ?s4)"
    by (rule adm_step.start_wait [where sid = sid']) (simp_all add: l2)
  with r4 have "adm_reachable cfg (set_phase 1 Waiting ?s4)" by (rule adm_reachable.step)
  then show ?thesis by (simp add: set_phase_def)
qed

lemma adm_holder_exists:
  assumes "adm_reachable cfg s" and "avail s sid = 0" and "0 < cap cfg sid"
  shows "\<exists>c \<in> set (calls s). holds sid c"
proof -
  from assms(1) have "avail s sid + holders s sid = cap cfg sid"
    by (simp add: adm_reachable_inv [unfolded adm_inv_def])
  with assms(2,3) have "filter (holds sid) (calls s) \<noteq> []" by (auto simp: holders_def)
  then show ?thesis by (simp add: filter_empty_conv)
qed

lemma adm_acquire_reaches:
  assumes "i < length (calls s)" and "call_phase (calls s ! i) = Waiting"
    and "limiter_for cfg (call_bucket (calls s ! i)) = Some sid" and "0 < avail s sid"
  shows "\<exists>t. (adm_step cfg)\<^sup>*\<^sup>* s t \<and> call_phase (calls t ! i) = Holding (Some sid)"
proof -
  let ?t = "(set_phase i (Holding (Some sid)) s)\<lparr>avail := (avail s)(sid := avail s sid - 1)\<rparr>"
  have "adm_step cfg s ?t" using assms by (rule adm_step.acquire_permit)
  moreover have "call_phase (calls ?t ! i) = Holding (Some sid)"
    using assms(1) by (simp add: set_phase_def)
  ultimately show ?thesis by blast
qed

subsection \<open>Bounds on concurrent calls\<close>

text \<open>
  C14: with a global limiter of \<open>n\<close> permits, at most \<open>n\<close> calls are inside
  their handlers at once, whatever buckets they address: the global semaphore
  serialises the buckets, and their own \<open>max_concurrency\<close> plays no part.
\<close>

theorem global_limiter_bounds_all_calls:
  assumes "adm_reachable cfg s" and "global_cap cfg = Some n"
  shows "length (filter holding (calls s)) \<le> n"
proof -
  have "filter (\<lambda>c. holding c \<and> True) (calls s) = filter (\<lambda>c. holds Global c \<and> True) (calls s)"
    using assms by (intro holding_holds) (auto intro: limiter_for_global)
  then have "length (filter holding (calls s)) = holders s Global" by (simp add: holders_def)
  also have "\<dots> \<le> cap cfg Global" using assms(1) by (rule adm_reachable_holders)
  finally show ?thesis using assms(2) by (simp add: cap_def)
qed

text \<open>
  C15: without a global limiter, a bucket whose \<open>max_concurrency\<close> is
  \<open>n\<close> has at most \<open>n\<close> of its calls inside their handlers at once.
\<close>

theorem local_limiter_bounds_bucket_calls:
  assumes "adm_reachable cfg s" and "global_cap cfg = None" and "local_cap cfg b = Some n"
  shows "length (filter (\<lambda>c. holding c \<and> call_bucket c = b) (calls s)) \<le> n"
proof -
  have "filter (\<lambda>c. holding c \<and> call_bucket c = b) (calls s) =
        filter (\<lambda>c. holds (Local b) c \<and> call_bucket c = b) (calls s)"
    using assms by (intro holding_holds) (auto intro: limiter_for_local)
  then have "length (filter (\<lambda>c. holding c \<and> call_bucket c = b) (calls s)) \<le> holders s (Local b)"
    by (simp add: holders_def length_filter_conj_le)
  also have "\<dots> \<le> cap cfg (Local b)" using assms(1) by (rule adm_reachable_holders)
  finally show ?thesis using assms(3) by (simp add: cap_def)
qed

text \<open>
  C16: a semaphore of positive capacity with no free permit is held by some
  call: every permit taken is held by a call that will release it, so a waiting
  call is blocked only by calls that are running, never by a lost permit.
\<close>

theorem exhausted_semaphore_has_holder:
  assumes "adm_reachable cfg s" and "avail s sid = 0" and "0 < cap cfg sid"
  shows "\<exists>c \<in> set (calls s). holds sid c"
  using assms by (rule adm_holder_exists)

text \<open>
  C26: no call waits forever while its semaphore has a permit at all: from every
  reachable state, a call waiting for a semaphore of positive capacity is admitted
  after at most one other call finishes (the release of a holder, when no permit
  is free) and its own acquisition.
\<close>

theorem waiting_call_admitted:
  assumes "adm_reachable cfg s" and "i < length (calls s)" and "call_phase (calls s ! i) = Waiting"
    and "limiter_for cfg (call_bucket (calls s ! i)) = Some sid" and "0 < cap cfg sid"
  shows "\<exists>t. (adm_step cfg)\<^sup>*\<^sup>* s t \<and> call_phase (calls t ! i) = Holding (Some sid)"
proof (cases "0 < avail s sid")
  case True
  then show ?thesis using assms(2-4) by (blast intro: adm_acquire_reaches)
next
  case False
  then have "avail s sid = 0" by simp
  from adm_holder_exists [OF assms(1) this assms(5)]
  obtain j where j: "j < length (calls s)" "holds sid (calls s ! j)"
    by (auto simp: in_set_conv_nth)
  have ij: "j \<noteq> i" using j(2) assms(3) by (auto simp: holds_def)
  let ?s1 = "(set_phase j Finished s)\<lparr>avail := release_permit (Some sid) (avail s)\<rparr>"
  have step1: "adm_step cfg s ?s1"
    using j by (intro adm_step.release) (simp_all add: holds_def)
  have c1: "calls ?s1 ! i = calls s ! i" using ij by (simp add: set_phase_def)
  have "0 < avail ?s1 sid" by (simp add: release_permit_def)
  then obtain t where "(adm_step cfg)\<^sup>*\<^sup>* ?s1 t" "call_phase (calls t ! i) = Holding (Some sid)"
    using adm_acquire_reaches [of i ?s1 cfg sid] assms(2-4) c1 by (auto simp: set_phase_def)
  with step1 show ?thesis by (meson converse_rtranclp_into_rtranclp)
qed

end
