(* ===== verification/Registry.thy ===== *)
theory Registry
  imports Utils
begin

text \<open>
  The process-wide bucket registry (\<open>src/src/controller.rs\<close>, the static
  \<open>BUCKETS: OnceCell<HashMap<u32, BucketController>>\<close> with \<open>init_buckets\<close>,
  \<open>get_bucket_by_id\<close> and \<open>get_bucket_by_name\<close>). The cell is explicit state:
  \<open>None\<close> while unset, \<open>Some m\<close> once set, never changed again. The stored
  controllers are a type parameter \<open>'c\<close>: the registry never looks inside them.
  \<^item> \<open>init_buckets\<close> sets the cell if it is unset and otherwise ignores its
    argument (\<open>let _ = BUCKETS.set(buckets)\<close>);
  \<^item> \<open>get_bucket_by_id\<close> reads the cell through \<open>get_or_init(HashMap::new)\<close>,
    so a lookup on an unset cell sets it to the empty map;
  \<^item> \<open>get_bucket_by_name\<close> looks up the CRC-32 of the name.
  \<open>run_registry\<close> runs a sequence of these calls (start-up and serving in any
  order) and collects the answers of the lookups.
\<close>

type_synonym 'c registry = "(u32 \<rightharpoonup> 'c) option"

definition init_buckets :: "(u32 \<rightharpoonup> 'c) \<Rightarrow> 'c registry \<Rightarrow> 'c registry" where
  "init_buckets buckets cell = (case cell of None \<Rightarrow> Some buckets | Some _ \<Rightarrow> cell)"

definition get_or_init_empty :: "'c registry \<Rightarrow> (u32 \<rightharpoonup> 'c) \<times> 'c registry" where
  "get_or_init_empty cell = (case cell of None \<Rightarrow> (Map.empty, Some Map.empty) | Some m \<Rightarrow> (m, cell))"

definition get_bucket_by_id :: "u32 \<Rightarrow> 'c registry \<Rightarrow> 'c option \<times> 'c registry" where
  "get_bucket_by_id bucket_id cell = (case get_or_init_empty cell of (m, cell') \<Rightarrow> (m bucket_id, cell'))"

definition get_bucket_by_name :: "string \<Rightarrow> 'c registry \<Rightarrow> 'c option \<times> 'c registry" where
  "get_bucket_by_name bucket cell = get_bucket_by_id (crc_hash bucket) cell"

datatype 'c registry_call = InitBuckets "u32 \<rightharpoonup> 'c" | ById u32 | ByName string

fun registry_step :: "'c registry_call \<Rightarrow> 'c registry \<Rightarrow> 'c option list \<times> 'c registry" where
  "registry_step (InitBuckets m) cell = ([], init_buckets m cell)"
| "registry_step (ById b) cell = (case get_bucket_by_id b cell of (r, cell') \<Rightarrow> ([r], cell'))"
| "registry_step (ByName n) cell = (case get_bucket_by_name n cell of (r, cell') \<Rightarrow> ([r], cell'))"

fun run_registry :: "'c registry_call list \<Rightarrow> 'c registry \<Rightarrow> 'c option list \<times> 'c registry" where
  "run_registry [] cell = ([], cell)"
| "run_registry (c # cs) cell =
     (case registry_step c cell of (out, cell') \<Rightarrow>
        (case run_registry cs cell' of (outs, cell'') \<Rightarrow> (out @ outs, cell'')))"

text \<open>The bucket ids the lookups of a sequence of calls ask for, in order.\<close>

fun lookup_ids :: "'c registry_call list \<Rightarrow> u32 list" where
  "lookup_ids [] = []"
| "lookup_ids (InitBuckets _ # cs) = lookup_ids cs"
| "lookup_ids (ById b # cs) = b # lookup_ids cs"
| "lookup_ids (ByName n # cs) = crc_hash n # lookup_ids cs"

subsection \<open>Runs on a set cell\<close>

lemma registry_step_set:
  "registry_step c (Some m) = (map m (lookup_ids [c]), Some m)"
  by (cases c) (simp_all add: init_buckets_def get_bucket_by_id_def get_bucket_by_name_def
      get_or_init_empty_def)

lemma run_registry_set:
  "run_registry cs (Some m) = (map m (lookup_ids cs), Some m)"
proof (induction cs)
  case Nil
  then show ?case by simp
next
  case (Cons c cs)
  have "lookup_ids (c # cs) = lookup_ids [c] @ lookup_ids cs"
    by (cases c) simp_all
  with Cons show ?case by (simp add: registry_step_set)
qed

subsection \<open>Start-up and early lookups\<close>

text \<open>
  C17: once \<open>init_buckets m\<close> has set the registry, every later lookup, by id
  or by name, answers from \<open>m\<close>, and every later \<open>init_buckets\<close> is a no-op.
\<close>

theorem registry_init_is_final:
  "run_registry (InitBuckets m # cs) None = (map m (lookup_ids cs), Some m)"
  by (simp add: init_buckets_def run_registry_set)

text \<open>
  C18: a lookup that runs before \<open>init_buckets\<close> sets the registry to the empty
  map through \<open>get_or_init(HashMap::new)\<close>; the later \<open>init_buckets\<close> is
  then silently ignored and every lookup, for the life of the process, finds no
  bucket.
\<close>

theorem lookup_before_init_empties_registry:
  "run_registry (ById b # cs) None =
     (replicate (Suc (length (lookup_ids cs))) None, Some Map.empty)"
  by (simp add: get_bucket_by_id_def get_or_init_empty_def run_registry_set map_replicate_const)

end
