(* ===== verification/Gcp.thy ===== *)
theory Gcp
  imports Keys Storage Registry
begin

text \<open>
  The Google Cloud Storage backend (\<open>src/src/storage/backends/gcp_cloud_storage.rs\<close>,
  \<open>GCPCloudStorageBackend\<close>) over a model of the remote bucket.
  \<^item> The remote bucket is a map from object names to bytes, with a list of
    names whose writes fail. The client calls of the \<open>cloud_storage\<close> crate
    are \<open>gcs_create\<close>, \<open>gcs_download\<close> and \<open>gcs_delete\<close>: as the service does,
    downloading or deleting an object that does not exist is an error (HTTP 404).
  \<^item> \<open>delete\<close> reads the bucket's configuration from the process-wide registry
    (\<open>get_bucket_by_id(bucket_id)?.cfg()\<close>), so the registry of configurations
    is part of the backend's state, with the side effect \<open>get_bucket_by_id\<close> has
    on an unset registry.
  \<^item> \<open>gcp_store\<close>, \<open>gcp_fetch\<close>, \<open>gcp_delete\<close> are the trait methods, the
    loop of \<open>delete\<close> over every sizing id and every kind being
    \<open>gcp_delete_loop\<close>; \<open>gcp_backend\<close> is the backend as a
    \<open>storage_backend\<close> and \<open>gcp_contents\<close> its abstraction to the contract's map.
  Image ids are strings, as in the trait: the implementation takes a \<open>Uuid\<close>,
  which is rendered by \<open>format_path\<close> through its \<open>Display\<close>.
\<close>

record gcp_state =
  gcs_objects :: "string \<rightharpoonup> bytes"
  gcs_failing :: "string list"
  gcp_registry :: "bucket_config registry"

definition gcs_create :: "string \<Rightarrow> bytes \<Rightarrow> gcp_state \<Rightarrow> (gcp_state, unit) res" where
  "gcs_create path data st =
     (if path \<in> set (gcs_failing st) then (Inl (StorageError ''create failed''), st)
      else (Inr (), st\<lparr>gcs_objects := (gcs_objects st)(path \<mapsto> data)\<rparr>))"

definition gcs_download :: "string \<Rightarrow> gcp_state \<Rightarrow> (gcp_state, bytes) res" where
  "gcs_download path st =
     (case gcs_objects st path of
        None \<Rightarrow> (Inl (StorageError ''not found''), st)
      | Some d \<Rightarrow> (Inr d, st))"

definition gcs_delete :: "string \<Rightarrow> gcp_state \<Rightarrow> (gcp_state, unit) res" where
  "gcs_delete path st =
     (case gcs_objects st path of
        None \<Rightarrow> (Inl (StorageError ''not found''), st)
      | Some _ \<Rightarrow> (Inr (), st\<lparr>gcs_objects := (gcs_objects st)(path := None)\<rparr>))"

definition gcp_store :: "u32 \<Rightarrow> string \<Rightarrow> image_kind \<Rightarrow> u32 \<Rightarrow> bytes \<Rightarrow> gcp_state
    \<Rightarrow> (gcp_state, unit) res" where
  "gcp_store bucket_id image_id kind sizing_id data st =
     (let store_in = format_path bucket_id sizing_id image_id kind in
      qbind (gcs_create store_in data st) (\<lambda>_ st. (Inr (), st)))"

definition gcp_fetch :: "u32 \<Rightarrow> string \<Rightarrow> image_kind \<Rightarrow> u32 \<Rightarrow> gcp_state
    \<Rightarrow> (gcp_state, bytes option) res" where
  "gcp_fetch bucket_id image_id kind sizing_id st =
     (let store_in = format_path bucket_id sizing_id image_id kind in
      qbind (gcs_download store_in st)
        (\<lambda>object st. if object = [] then (Inr None, st) else (Inr (Some object), st)))"

fun gcp_delete_loop :: "u32 \<Rightarrow> string \<Rightarrow> (u32 \<times> image_kind) list \<Rightarrow> (u32 \<times> image_kind) list
    \<Rightarrow> gcp_state \<Rightarrow> (gcp_state, (u32 \<times> image_kind) list) res" where
  "gcp_delete_loop bucket_id image_id [] hit_entries st = (Inr hit_entries, st)"
| "gcp_delete_loop bucket_id image_id ((sizing_id, kind) # ps) hit_entries st =
     qbind (gcs_delete (format_path bucket_id sizing_id image_id kind) st)
       (\<lambda>_ st. gcp_delete_loop bucket_id image_id ps (hit_entries @ [(sizing_id, kind)]) st)"

definition gcp_delete :: "u32 \<Rightarrow> string \<Rightarrow> gcp_state \<Rightarrow> (gcp_state, (u32 \<times> image_kind) list) res" where
  "gcp_delete bucket_id image_id st =
     (case get_bucket_by_id bucket_id (gcp_registry st) of
        (r, reg) \<Rightarrow>
          (case r of
             None \<Rightarrow> (Inl (StorageError ''Bucket does not exist.''), st\<lparr>gcp_registry := reg\<rparr>)
           | Some bucket \<Rightarrow>
               gcp_delete_loop bucket_id image_id
                 (List.product (sizing_preset_ids bucket) variants) [] (st\<lparr>gcp_registry := reg\<rparr>)))"

definition gcp_backend :: "gcp_state storage_backend" where
  "gcp_backend = \<lparr>sb_store = gcp_store, sb_fetch = gcp_fetch, sb_delete = gcp_delete\<rparr>"

definition gcp_contents :: "gcp_state \<Rightarrow> skey \<rightharpoonup> bytes" where
  "gcp_contents st = (\<lambda>(b, i, k, s). gcs_objects st (format_path b s i k))"

text \<open>The object names of a list of variants of an image.\<close>

definition gcp_paths :: "u32 \<Rightarrow> string \<Rightarrow> (u32 \<times> image_kind) list \<Rightarrow> string set" where
  "gcp_paths b i ps = (\<lambda>(s, k). format_path b s i k) ` set ps"

subsection \<open>The client calls\<close>

lemma gcs_delete_Some:
  "gcs_objects st path = Some d \<Longrightarrow>
    gcs_delete path st = (Inr (), st\<lparr>gcs_objects := (gcs_objects st)(path := None)\<rparr>)"
  by (simp add: gcs_delete_def)

lemma gcs_delete_None: "gcs_objects st path = None \<Longrightarrow> gcs_delete path st = (Inl (StorageError ''not found''), st)"
  by (simp add: gcs_delete_def)

subsection \<open>The loop of \<open>delete\<close>\<close>

text \<open>An object missing when the loop starts is still missing when the loop reaches it.\<close>

lemma gcp_delete_loop_missing:
  "(s, k) \<in> set ps \<Longrightarrow> gcs_objects st (format_path b s i k) = None \<Longrightarrow>
    isl (fst (gcp_delete_loop b i ps hit st))"
proof (induction ps arbitrary: hit st)
  case Nil
  then show ?case by simp
next
  case (Cons p ps)
  obtain s' k' where p: "p = (s', k')" by (cases p)
  show ?case
  proof (cases "gcs_objects st (format_path b s' i k')")
    case None
    then show ?thesis by (simp add: p gcs_delete_None)
  next
    case (Some d)
    with Cons.prems p have "(s, k) \<in> set ps"
      by (auto simp: format_path_injective)
    moreover have "((gcs_objects st)(format_path b s' i k' := None)) (format_path b s i k) = None"
      using Cons.prems(2) by simp
    ultimately show ?thesis
      using Cons.IH [where st = "st\<lparr>gcs_objects := (gcs_objects st)(format_path b s' i k' := None)\<rparr>"]
      by (simp add: p gcs_delete_Some [OF Some])
  qed
qed

lemma gcp_delete_loop_ok:
  "\<forall>(s, k) \<in> set ps. gcs_objects st (format_path b s i k) \<noteq> None \<Longrightarrow> distinct ps \<Longrightarrow>
    gcp_delete_loop b i ps hit st =
      (Inr (hit @ ps), st\<lparr>gcs_objects := (\<lambda>x. if x \<in> gcp_paths b i ps then None else gcs_objects st x)\<rparr>)"
proof (induction ps arbitrary: hit st)
  case Nil
  then show ?case by (simp add: gcp_paths_def)
next
  case (Cons p ps)
  obtain s' k' where p: "p = (s', k')" by (cases p)
  from Cons.prems p obtain d where d: "gcs_objects st (format_path b s' i k') = Some d" by auto
  let ?st' = "st\<lparr>gcs_objects := (gcs_objects st)(format_path b s' i k' := None)\<rparr>"
  have "\<forall>(s, k) \<in> set ps. gcs_objects ?st' (format_path b s i k) \<noteq> None"
    using Cons.prems p by (auto simp: format_path_injective)
  with Cons.IH [of ?st' "hit @ [p]"] Cons.prems(2) p d show ?case
    by (auto simp: gcs_delete_Some gcp_paths_def fun_eq_iff)
qed

lemma gcp_paths_product:
  "format_path b' s i' k \<in> gcp_paths b i (List.product ids variants) \<longleftrightarrow>
    b' = b \<and> i' = i \<and> s \<in> set ids"
  by (auto simp: gcp_paths_def format_path_injective)

lemma get_bucket_by_id_set: "get_bucket_by_id b (Some m) = (m b, Some m)"
  by (simp add: get_bucket_by_id_def get_or_init_empty_def)

subsection \<open>Store and fetch\<close>

lemma gcp_store_contents:
  "gcp_store b i k s d st = (r, st') \<Longrightarrow>
    gcp_contents st' = (case r of Inr _ \<Rightarrow> (gcp_contents st)((b, i, k, s) \<mapsto> d) | Inl _ \<Rightarrow> gcp_contents st)"
  by (cases "format_path b s i k \<in> set (gcs_failing st)")
     (auto simp: gcp_store_def gcs_create_def gcp_contents_def Let_def fun_eq_iff
      format_path_injective)

lemma gcp_fetch_download:
  "gcp_fetch b i k s st =
     (case gcp_contents st (b, i, k, s) of
        None \<Rightarrow> (Inl (StorageError ''not found''), st)
      | Some d \<Rightarrow> (Inr (if d = [] then None else Some d), st))"
  by (simp add: gcp_fetch_def gcs_download_def gcp_contents_def split: option.split)

subsection \<open>Properties of the backend\<close>

text \<open>
  C19: a successful store of non-empty bytes is read back by a fetch of the same
  variant.
\<close>

theorem gcp_fetch_after_store:
  assumes "gcp_store b i k s d st = (Inr (), st')" and "d \<noteq> []"
  shows "gcp_fetch b i k s st' = (Inr (Some d), st')"
  using gcp_store_contents [OF assms(1)] assms(2) by (simp add: gcp_fetch_download)

text \<open>
  C20: an empty variant is stored but reads back as absent. The store of no bytes
  succeeds and the bucket then holds an empty object at the variant's path, yet
  \<open>fetch\<close> answers \<open>Ok(None)\<close> (\<open>if object.is_empty() { return Ok(None) }\<close>),
  where the storage contract requires the stored bytes: the backend does not
  refine the contract's map on empty objects.
\<close>

theorem gcp_empty_variant_reads_as_absent:
  assumes "format_path b s i k \<notin> set (gcs_failing st)"
  shows "\<exists>st'. gcp_store b i k s [] st = (Inr (), st') \<and> gcp_contents st' (b, i, k, s) = Some [] \<and>
    gcp_fetch b i k s st' = (Inr None, st')"
proof -
  obtain r st' where run: "gcp_store b i k s [] st = (r, st')" by fastforce
  with assms have r: "r = Inr ()"
    by (simp add: gcp_store_def gcs_create_def Let_def)
  from gcp_store_contents [OF run] r have "gcp_contents st' (b, i, k, s) = Some []"
    by simp
  with run r show ?thesis by (simp add: gcp_fetch_download)
qed

text \<open>
  C21: a fetch of a variant that was never stored is an error, not the absent
  result \<open>Ok(None)\<close>: the download of a missing object fails and the \<open>?\<close>
  propagates it.
\<close>

theorem gcp_missing_variant_is_error:
  assumes "gcp_contents st (b, i, k, s) = None"
  shows "isl (fst (gcp_fetch b i k s st))"
  using assms by (simp add: gcp_fetch_download)

text \<open>
  C22: \<open>delete\<close> fails as soon as one of the combinations it tries, every sizing id
  of the bucket's configuration with every kind, has no object, whichever
  variants the image really has.
\<close>

theorem gcp_delete_fails_on_missing_variant:
  assumes "gcp_registry st = Some m" and "m b = Some cfg"
    and "s \<in> set (sizing_preset_ids cfg)" and "gcp_contents st (b, i, k, s) = None"
  shows "isl (fst (gcp_delete b i st))"
proof -
  have "(s, k) \<in> set (List.product (sizing_preset_ids cfg) variants)" using assms(3) by simp
  moreover have "gcs_objects (st\<lparr>gcp_registry := Some m\<rparr>) (format_path b s i k) = None"
    using assms(4) by (simp add: gcp_contents_def)
  ultimately show ?thesis
    using assms(1,2) by (simp add: gcp_delete_def get_bucket_by_id_set gcp_delete_loop_missing)
qed

text \<open>
  C23: when every combination exists and the sizing ids are distinct, \<open>delete\<close>
  reports every combination, in the order of the loops, and removes exactly the
  variants of the image at those sizing ids.
\<close>

theorem gcp_delete_purges_every_combination:
  assumes "gcp_registry st = Some m" and "m b = Some cfg"
    and "distinct (sizing_preset_ids cfg)"
    and "\<forall>s \<in> set (sizing_preset_ids cfg). \<forall>k. gcp_contents st (b, i, k, s) \<noteq> None"
  shows "\<exists>st'. gcp_delete b i st = (Inr (List.product (sizing_preset_ids cfg) variants), st') \<and>
    (\<forall>b' i' k s. gcp_contents st' (b', i', k, s) =
       (if b' = b \<and> i' = i \<and> s \<in> set (sizing_preset_ids cfg) then None
        else gcp_contents st (b', i', k, s)))"
proof -
  let ?ps = "List.product (sizing_preset_ids cfg) variants"
  have "distinct ?ps" using assms(3) distinct_variants by (simp add: distinct_product)
  moreover have "\<forall>(s, k) \<in> set ?ps. gcs_objects (st\<lparr>gcp_registry := Some m\<rparr>) (format_path b s i k) \<noteq> None"
    using assms(4) by (auto simp: gcp_contents_def)
  ultimately show ?thesis
    using assms(1,2)
    by (simp add: gcp_delete_def get_bucket_by_id_set gcp_delete_loop_ok gcp_contents_def
        gcp_paths_product)
qed

end
