(* ===== verification/Backends.thy ===== *)
theory Backends
  imports Prelude
begin

text \<open>
  Connecting the configured storage backend (\<open>src/src/storage/backends/register.rs\<close>,
  \<open>BackendConfigs\<close> and \<open>connect\<close>) and the constructor of the GCP backend
  (\<open>GCPCloudStorageBackend::new\<close>, \<open>src/src/storage/backends/gcp_cloud_storage.rs\<close>).
  \<^item> \<open>backend_configs\<close> is the enum with its four variants and their fields;
    \<open>storage_handle\<close> stands for the \<open>Arc<dyn StorageBackend>\<close> it returns, one
    constructor per implementation, carrying the arguments it was built from.
  \<^item> The file-system, blob-storage and Scylla constructors are not among the
    sources: the outcome of their I/O is a parameter (\<open>backend_io\<close>); the
    file-system constructor cannot fail (no \<open>?\<close> in the code).
  \<^item> \<open>GCPCloudStorageBackend::new\<close> writes the process environment variable
    \<open>SERVICE_ACCOUNT\<close> and then reads the bucket through a default client. The
    \<open>cloud_storage\<close> crate reads its credentials from that variable once, lazily,
    at its first request, into a process-wide static; \<open>gcp_env\<close> holds the
    environment, that static (\<open>None\<close> until the first request) and the grants of
    the remote service (which account may read which bucket).
\<close>

datatype backend_configs =
    Scylla "string list" "string option" "string option" string "string option"
  | FileSystem string
  | BlobStorage string string string bool
  | GCPCloudStorage string string

record gcp_env =
  env_vars :: "string \<rightharpoonup> string"
  service_account :: "string option option"
  grants :: "(string \<times> string) list"

record gcp_handle =
  handle_bucket_name :: string

datatype storage_handle =
    FileSystemHandle string
  | BlobStorageHandle string string string bool
  | GcpHandle gcp_handle
  | ScyllaHandle string "string option" "string list" "string option" "string option"

record backend_io =
  blob_storage_new :: "string \<Rightarrow> string \<Rightarrow> string \<Rightarrow> bool \<Rightarrow> error option"
  scylla_connect :: "string \<Rightarrow> string option \<Rightarrow> string list \<Rightarrow> string option \<Rightarrow> string option
                       \<Rightarrow> error option"

text \<open>
  A request of the \<open>cloud_storage\<close> client: the credentials are read from
  \<open>SERVICE_ACCOUNT\<close> at the first request of the process and kept; a request
  without credentials, or on a bucket the account may not read, fails.
\<close>

definition gcs_credentials :: "gcp_env \<Rightarrow> string option \<times> gcp_env" where
  "gcs_credentials env =
     (case service_account env of
        Some acct \<Rightarrow> (acct, env)
      | None \<Rightarrow> (env_vars env ''SERVICE_ACCOUNT'',
                 env\<lparr>service_account := Some (env_vars env ''SERVICE_ACCOUNT'')\<rparr>))"

definition gcs_bucket_read :: "string \<Rightarrow> gcp_env \<Rightarrow> (gcp_env, unit) res" where
  "gcs_bucket_read bucket_name env =
     (case gcs_credentials env of
        (None, env') \<Rightarrow> (Inl (StorageError ''SERVICE_ACCOUNT not set''), env')
      | (Some acct, env') \<Rightarrow>
          (if (bucket_name, acct) \<in> set (grants env') then (Inr (), env')
           else (Inl (StorageError ''bucket not found''), env')))"

definition gcp_new :: "string \<Rightarrow> string \<Rightarrow> gcp_env \<Rightarrow> (gcp_env, gcp_handle) res" where
  "gcp_new bucket_name service_account_path env =
     (let env1 = env\<lparr>env_vars := (env_vars env)(''SERVICE_ACCOUNT'' \<mapsto> service_account_path)\<rparr> in
      qbind (gcs_bucket_read bucket_name env1)
        (\<lambda>_ env2. (Inr \<lparr>handle_bucket_name = bucket_name\<rparr>, env2)))"

definition error_to_res :: "error option \<Rightarrow> 'a \<Rightarrow> 'e \<Rightarrow> ('e, 'a) res" where
  "error_to_res r a env = (case r of Some e \<Rightarrow> (Inl e, env) | None \<Rightarrow> (Inr a, env))"

definition connect :: "backend_io \<Rightarrow> backend_configs \<Rightarrow> gcp_env \<Rightarrow> (gcp_env, storage_handle) res" where
  "connect io cfg env =
     (case cfg of
        FileSystem directory \<Rightarrow> (Inr (FileSystemHandle directory), env)
      | BlobStorage name region endpoint store_public \<Rightarrow>
          error_to_res (blob_storage_new io name region endpoint store_public)
            (BlobStorageHandle name region endpoint store_public) env
      | GCPCloudStorage name service_account_path \<Rightarrow>
          qbind (gcp_new name service_account_path env) (\<lambda>backend env'. (Inr (GcpHandle backend), env'))
      | Scylla nodes username password keyspace table \<Rightarrow>
          error_to_res (scylla_connect io keyspace table nodes username password)
            (ScyllaHandle keyspace table nodes username password) env)"

text \<open>The variant of the configuration a handle was built from, with its fields.\<close>

fun built_from :: "storage_handle \<Rightarrow> backend_configs \<Rightarrow> bool" where
  "built_from (FileSystemHandle d) (FileSystem d') \<longleftrightarrow> d = d'"
| "built_from (BlobStorageHandle n r e p) (BlobStorage n' r' e' p') \<longleftrightarrow>
     n = n' \<and> r = r' \<and> e = e' \<and> p = p'"
| "built_from (GcpHandle h) (GCPCloudStorage n _) \<longleftrightarrow> handle_bucket_name h = n"
| "built_from (ScyllaHandle k t ns u p) (Scylla ns' u' p' k' t') \<longleftrightarrow>
     k = k' \<and> t = t' \<and> ns = ns' \<and> u = u' \<and> p = p'"
| "built_from _ _ \<longleftrightarrow> False"

subsection \<open>The credentials of the client\<close>

lemma gcs_credentials_set: "service_account env = Some a \<Longrightarrow> gcs_credentials env = (a, env)"
  by (simp add: gcs_credentials_def)

lemma gcs_bucket_read_account:
  "gcs_bucket_read n env = (r, env') \<Longrightarrow>
    service_account env' = Some (case service_account env of Some a \<Rightarrow> a | None \<Rightarrow> env_vars env ''SERVICE_ACCOUNT'') \<and>
    grants env' = grants env"
  by (auto simp: gcs_bucket_read_def gcs_credentials_def split: option.splits if_splits)

lemma gcs_bucket_read_result:
  "service_account env = Some (Some a) \<Longrightarrow>
    fst (gcs_bucket_read n env) =
      (if (n, a) \<in> set (grants env) then Inr () else Inl (StorageError ''bucket not found''))"
  by (simp add: gcs_bucket_read_def gcs_credentials_def)

lemma gcp_new_account:
  "gcp_new n a env = (r, env') \<Longrightarrow>
    service_account env' = Some (case service_account env of Some x \<Rightarrow> x | None \<Rightarrow> Some a) \<and>
    grants env' = grants env"
  by (cases "service_account env")
     (auto simp: gcp_new_def Let_def qbind_def dest!: gcs_bucket_read_account split: prod.splits sum.splits)

lemma gcp_new_result:
  "service_account env = Some (Some acct) \<Longrightarrow>
    fst (gcp_new n a env) =
      (if (n, acct) \<in> set (grants env) then Inr \<lparr>handle_bucket_name = n\<rparr>
       else Inl (StorageError ''bucket not found''))"
  by (simp add: gcp_new_def gcs_bucket_read_def gcs_credentials_def)

subsection \<open>Properties\<close>

text \<open>
  C29: \<open>connect\<close> builds the backend the configuration names, from the
  configuration's own fields (\<open>built_from\<close>); the file-system variant never fails.
\<close>

theorem connect_builds_configured_backend:
  "(connect io cfg env = (Inr h, env') \<longrightarrow> built_from h cfg) \<and>
   connect io (FileSystem d) env = (Inr (FileSystemHandle d), env)"
  by (cases cfg)
     (auto simp: connect_def error_to_res_def gcp_new_def Let_def qbind_def
      split: option.splits prod.splits sum.splits)

text \<open>
  C30: the first GCP backend built in a process fixes the service account of every
  later one. \<open>new\<close> sets \<open>SERVICE_ACCOUNT\<close>, but the client has read it once,
  at the first bucket read, so a second backend configured with another account
  still authenticates with the first: whether it can be built depends on the first
  account's grants only.
\<close>

theorem gcp_first_account_wins:
  assumes fresh: "service_account env = None"
    and first: "gcp_new n1 a1 env = (r1, env1)"
  shows "(\<not> isl r1 \<longleftrightarrow> (n1, a1) \<in> set (grants env)) \<and>
    fst (gcp_new n2 a2 env1) =
      (if (n2, a1) \<in> set (grants env) then Inr \<lparr>handle_bucket_name = n2\<rparr>
       else Inl (StorageError ''bucket not found''))"
proof -
  from gcp_new_account [OF first] fresh
  have acc: "service_account env1 = Some (Some a1)" and g: "grants env1 = grants env" by simp_all
  have "\<not> isl r1 \<longleftrightarrow> (n1, a1) \<in> set (grants env)"
    using first fresh
    by (auto simp: gcp_new_def gcs_bucket_read_def gcs_credentials_def Let_def qbind_def
        split: if_splits)
  moreover have "service_account (env1\<lparr>env_vars := (env_vars env1)(''SERVICE_ACCOUNT'' \<mapsto> a2)\<rparr>) = Some (Some a1)"
    using acc by simp
  ultimately show ?thesis
    using gcp_new_result [OF acc, of n2 a2] g by simp
qed

end
