(* ===== verification/Fanout.thy ===== *)
theory Fanout
  imports Controller
begin

text \<open>
  The fan-out of \<open>concurrent_upload\<close> (\<open>src/src/controller.rs\<close>, lines 302-337)
  as the tasks really run: \<open>tokio::spawn\<close> starts one task per entry, and the
  runtime interleaves their steps in any order. Each task makes two steps on the
  shared world: the backend write \<open>storage.store(..).await?\<close> (\<open>task_store\<close>),
  and, only if that write succeeded, the insert into the bucket's own cache
  (\<open>task_insert\<close>); a failed write ends the task with its error.
  \<^item> \<open>task_status\<close>: a task is \<open>Spawned\<close>, has \<open>Stored\<close> (written, insert
    pending) or is \<open>Done\<close> with its result;
  \<^item> \<open>fanout_event\<close>: the step of task \<open>j\<close> the runtime runs next;
    \<open>fanout_step\<close> runs it when the task is ready for it and otherwise does
    nothing, so that every list of events is a schedule; \<open>run_schedule\<close> runs a
    schedule from freshly spawned tasks;
  \<^item> \<open>fanout_complete\<close>: every task has finished, the state after the join
    \<open>for task in tasks { task.await??; }\<close> (the join returns at the first error
    in task order, but spawned tasks are not aborted and run to completion);
  \<^item> \<open>in_order js\<close>: the schedule running the tasks \<open>js\<close> one after another.
  The sequential \<open>run_tasks\<close> of \<open>Controller\<close> is the schedule
  \<open>in_order [0..<n]\<close> (\<open>run_in_order\<close>). When the entries' variant keys are
  distinct, every complete schedule ends with the storage contents, the caches and
  the task outcomes of that one; when two entries share a key, the last writer
  depends on the schedule.
\<close>

datatype fanout_event = StoreStep nat | InsertStep nat

datatype task_status = Spawned | Stored | Done "error + unit"

definition task_store :: "'s bucket_controller \<Rightarrow> string \<Rightarrow> store_entry \<Rightarrow> 's world
    \<Rightarrow> ('s world, unit) res" where
  "task_store ctl image_id e w =
     storage_op (sb_store (storage ctl) (bucket_id ctl) image_id (entry_kind e) (entry_sizing_id e)
                  (entry_data e)) w"

definition task_insert :: "'s bucket_controller \<Rightarrow> string \<Rightarrow> store_entry \<Rightarrow> 's world \<Rightarrow> 's world" where
  "task_insert ctl image_id e w =
     map_cache BucketCache
       (cache_insert (cache_key (bucket_id ctl) (entry_sizing_id e) image_id (entry_kind e)) (entry_data e)) w"

fun fanout_step :: "'s bucket_controller \<Rightarrow> string \<Rightarrow> store_entry list \<Rightarrow> fanout_event
    \<Rightarrow> task_status list \<times> 's world \<Rightarrow> task_status list \<times> 's world" where
  "fanout_step ctl image_id es (StoreStep j) (ts, w) =
     (if j < length ts \<and> ts ! j = Spawned then
        (case task_store ctl image_id (es ! j) w of
           (Inl e, w1) \<Rightarrow> (ts[j := Done (Inl e)], w1)
         | (Inr _, w1) \<Rightarrow> (ts[j := Stored], w1))
      else (ts, w))"
| "fanout_step ctl image_id es (InsertStep j) (ts, w) =
     (if j < length ts \<and> ts ! j = Stored then
        (ts[j := Done (Inr ())], task_insert ctl image_id (es ! j) w)
      else (ts, w))"

definition run_schedule :: "'s bucket_controller \<Rightarrow> string \<Rightarrow> store_entry list \<Rightarrow> fanout_event list
    \<Rightarrow> 's world \<Rightarrow> task_status list \<times> 's world" where
  "run_schedule ctl image_id es sched w =
     fold (fanout_step ctl image_id es) sched (replicate (length es) Spawned, w)"

fun task_done :: "task_status \<Rightarrow> (error + unit) option" where
  "task_done (Done r) = Some r"
| "task_done _ = None"

definition fanout_complete :: "task_status list \<Rightarrow> bool" where
  "fanout_complete ts \<longleftrightarrow> list_all (\<lambda>t. task_done t \<noteq> None) ts"

definition in_order :: "nat list \<Rightarrow> fanout_event list" where
  "in_order js = concat (map (\<lambda>j. [StoreStep j, InsertStep j]) js)"

subsection \<open>Effects of a set of tasks\<close>

text \<open>
  \<open>upd_tasks P key val n M\<close> writes \<open>val j\<close> under \<open>key j\<close> for every task
  \<open>j < n\<close> with \<open>P j\<close>; \<open>stored_after\<close> and \<open>cached_after\<close> are the
  storage contents and the bucket cache once the tasks in \<open>P\<close> have written.
\<close>

definition upd_tasks :: "(nat \<Rightarrow> bool) \<Rightarrow> (nat \<Rightarrow> 'k) \<Rightarrow> (nat \<Rightarrow> 'v) \<Rightarrow> nat \<Rightarrow> ('k \<rightharpoonup> 'v)
    \<Rightarrow> ('k \<rightharpoonup> 'v)" where
  "upd_tasks P key val n M = fold (\<lambda>j M. if P j then M(key j \<mapsto> val j) else M) [0..<n] M"

definition stored_after :: "u32 \<Rightarrow> string \<Rightarrow> store_entry list \<Rightarrow> (nat \<Rightarrow> bool)
    \<Rightarrow> (skey \<rightharpoonup> bytes) \<Rightarrow> (skey \<rightharpoonup> bytes)" where
  "stored_after b i es P M =
     upd_tasks P (\<lambda>j. entry_key b i (es ! j)) (\<lambda>j. entry_data (es ! j)) (length es) M"

definition cached_after :: "u32 \<Rightarrow> string \<Rightarrow> store_entry list \<Rightarrow> (nat \<Rightarrow> bool)
    \<Rightarrow> byte_cache \<Rightarrow> byte_cache" where
  "cached_after b i es P c =
     upd_tasks P (\<lambda>j. cache_key b (entry_sizing_id (es ! j)) i (entry_kind (es ! j))) (\<lambda>j. entry_data (es ! j))
       (length es) c"

text \<open>
  The state of a run from \<open>w0\<close>: the storage holds the writes of the tasks that
  have stored, the bucket cache the inserts of the tasks that have finished
  successfully; nothing else changes.
\<close>

definition fanout_inv :: "('s \<Rightarrow> skey \<rightharpoonup> bytes) \<Rightarrow> 's bucket_controller \<Rightarrow> string
    \<Rightarrow> store_entry list \<Rightarrow> 's world \<Rightarrow> task_status list \<times> 's world \<Rightarrow> bool" where
  "fanout_inv \<alpha> ctl i es w0 s \<longleftrightarrow>
     (case s of (ts, w) \<Rightarrow>
        length ts = length es \<and>
        \<alpha> (storage_state w) = stored_after (bucket_id ctl) i es
          (\<lambda>j. ts ! j = Stored \<or> ts ! j = Done (Inr ())) (\<alpha> (storage_state w0)) \<and>
        bucket_cache w = map_option (cached_after (bucket_id ctl) i es (\<lambda>j. ts ! j = Done (Inr ())))
          (bucket_cache w0) \<and>
        global_cache w = global_cache w0 \<and> hook_log w = hook_log w0)"

text \<open>With writes that fail on a set of keys \<open>F0\<close>: each task's outcome so far.\<close>

definition outcome_inv :: "('s \<Rightarrow> skey \<Rightarrow> bool) \<Rightarrow> (skey \<Rightarrow> bool) \<Rightarrow> 's bucket_controller \<Rightarrow> string
    \<Rightarrow> store_entry list \<Rightarrow> task_status list \<times> 's world \<Rightarrow> bool" where
  "outcome_inv F F0 ctl i es s \<longleftrightarrow>
     (case s of (ts, w) \<Rightarrow>
        F (storage_state w) = F0 \<and>
        (\<forall>j < length ts. case ts ! j of
           Spawned \<Rightarrow> True
         | Stored \<Rightarrow> \<not> F0 (entry_key (bucket_id ctl) i (es ! j))
         | Done r \<Rightarrow> isl r = F0 (entry_key (bucket_id ctl) i (es ! j))))"

subsection \<open>Writes of a set of tasks\<close>

lemma upd_tasks_0 [simp]: "upd_tasks P key val 0 M = M"
  by (simp add: upd_tasks_def)

lemma upd_tasks_Suc:
  "upd_tasks P key val (Suc n) M =
     (if P n then (upd_tasks P key val n M)(key n \<mapsto> val n) else upd_tasks P key val n M)"
  by (simp add: upd_tasks_def)

lemma upd_tasks_cong:
  "(\<And>j. j < n \<Longrightarrow> P j = Q j) \<Longrightarrow> upd_tasks P key val n M = upd_tasks Q key val n M"
  by (induction n) (simp_all add: upd_tasks_Suc)

lemma upd_tasks_none: "upd_tasks (\<lambda>_. False) key val n M = M"
  by (induction n) (simp_all add: upd_tasks_Suc)

text \<open>One more task writing: with distinct keys, in whatever order the tasks write.\<close>

lemma upd_tasks_set:
  assumes "inj_on key {..<n}" and "j < n" and "\<not> P j"
  shows "upd_tasks (P(j := True)) key val n M = (upd_tasks P key val n M)(key j \<mapsto> val j)"
  using assms
proof (induction n)
  case 0
  then show ?case by simp
next
  case (Suc n)
  have inj: "inj_on key {..<n}" using Suc.prems(1) by (rule inj_on_subset) auto
  show ?case
  proof (cases "j < n")
    case True
    with Suc.prems(1) have "key j \<noteq> key n" by (auto dest: inj_onD)
    with Suc.IH [OF inj True Suc.prems(3)] True show ?thesis
      by (auto simp: upd_tasks_Suc fun_upd_twist)
  next
    case False
    with Suc.prems(2) have j: "j = n" by simp
    have eq: "upd_tasks (P(n := True)) key val n M = upd_tasks P key val n M"
      by (intro upd_tasks_cong) simp
    have "(P(n := True)) n" by simp
    with eq Suc.prems(3) show ?thesis
      unfolding j by (simp only: upd_tasks_Suc if_True if_False)
  qed
qed

lemma cache_agrees_upd_tasks:
  "cache_agrees b M c \<Longrightarrow>
    cache_agrees b (upd_tasks P (\<lambda>j. (b, i, kd j, sz j)) val n M)
      (upd_tasks P (\<lambda>j. cache_key b (sz j) i (kd j)) val n c)"
proof (induction n)
  case 0
  then show ?case by simp
next
  case (Suc n)
  note IH = Suc.IH [OF Suc.prems]
  show ?case
  proof (cases "P n")
    case True
    from cache_agrees_insert [OF IH, of i "kd n" "sz n" "val n"] True show ?thesis
      by (simp only: upd_tasks_Suc if_True cache_insert_def)
  next
    case False
    with IH show ?thesis by (simp only: upd_tasks_Suc if_False)
  qed
qed

lemma entry_keys_inj:
  "distinct (map (entry_key b i) es) \<Longrightarrow> inj_on (\<lambda>j. entry_key b i (es ! j)) {..<length es}"
  by (auto simp: inj_on_def distinct_conv_nth)

lemma cache_keys_inj:
  "distinct (map (entry_key b i) es) \<Longrightarrow>
    inj_on (\<lambda>j. cache_key b (entry_sizing_id (es ! j)) i (entry_kind (es ! j))) {..<length es}"
  by (auto simp: inj_on_def distinct_conv_nth cache_key_eq_iff entry_key_def)

subsection \<open>The two steps of a task\<close>

lemma task_store_world:
  assumes "storage_contract (storage ctl) \<alpha>" and "task_store ctl i e w = (r, w1)"
  shows "w1 = w\<lparr>storage_state := storage_state w1\<rparr> \<and>
    \<alpha> (storage_state w1) = (case r of Inl _ \<Rightarrow> \<alpha> (storage_state w)
       | Inr _ \<Rightarrow> (\<alpha> (storage_state w))(entry_key (bucket_id ctl) i e \<mapsto> entry_data e))"
  using storage_op_store [OF assms(1) assms(2) [unfolded task_store_def]]
  by (simp add: entry_key_def split: sum.splits)

lemma task_insert_world [simp]:
  "storage_state (task_insert ctl i e w) = storage_state w"
  "bucket_cache (task_insert ctl i e w) =
     map_option (cache_insert (cache_key (bucket_id ctl) (entry_sizing_id e) i (entry_kind e)) (entry_data e))
       (bucket_cache w)"
  "global_cache (task_insert ctl i e w) = global_cache w"
  "hook_log (task_insert ctl i e w) = hook_log w"
  by (simp_all add: task_insert_def map_cache_def)

lemma fanout_task_steps:
  "fanout_task ctl i e w = qbind (task_store ctl i e w) (\<lambda>_ w1. (Inr (), task_insert ctl i e w1))"
  by (simp add: fanout_task_def task_store_def task_insert_def)

text \<open>A task run on its own, its two steps back to back, is \<open>fanout_task\<close>.\<close>

lemma fanout_step_task:
  assumes "j < length ts" and "ts ! j = Spawned"
  shows "fold (fanout_step ctl i es) [StoreStep j, InsertStep j] (ts, w) =
    (ts[j := Done (fst (fanout_task ctl i (es ! j) w))], snd (fanout_task ctl i (es ! j) w))"
proof -
  obtain r w1 where st: "task_store ctl i (es ! j) w = (r, w1)" by fastforce
  with assms show ?thesis
    by (cases r) (simp_all add: fanout_task_steps)
qed

subsection \<open>The state of a run\<close>

lemma stored_after_cong:
  "(\<And>m. m < length es \<Longrightarrow> P m = Q m) \<Longrightarrow> stored_after b i es P M = stored_after b i es Q M"
  unfolding stored_after_def by (rule upd_tasks_cong)

lemma cached_after_cong:
  "(\<And>m. m < length es \<Longrightarrow> P m = Q m) \<Longrightarrow> cached_after b i es P = cached_after b i es Q"
  unfolding cached_after_def by (rule ext, rule upd_tasks_cong)

lemma stored_after_set:
  assumes "distinct (map (entry_key b i) es)" and "j < length es" and "\<not> P j"
    and "\<And>m. m < length es \<Longrightarrow> Q m = (P(j := True)) m"
  shows "stored_after b i es Q M = (stored_after b i es P M)(entry_key b i (es ! j) \<mapsto> entry_data (es ! j))"
proof -
  have "stored_after b i es Q M = stored_after b i es (P(j := True)) M"
    using assms(4) by (rule stored_after_cong)
  also have "\<dots> = (stored_after b i es P M)(entry_key b i (es ! j) \<mapsto> entry_data (es ! j))"
    unfolding stored_after_def by (intro upd_tasks_set entry_keys_inj assms(1-3))
  finally show ?thesis .
qed

lemma cached_after_set:
  assumes "distinct (map (entry_key b i) es)" and "j < length es" and "\<not> P j"
    and "\<And>m. m < length es \<Longrightarrow> Q m = (P(j := True)) m"
  shows "cached_after b i es Q c =
    cache_insert (cache_key b (entry_sizing_id (es ! j)) i (entry_kind (es ! j))) (entry_data (es ! j))
      (cached_after b i es P c)"
proof -
  have "cached_after b i es Q c = cached_after b i es (P(j := True)) c"
    by (rule cached_after_cong [THEN fun_cong]) (rule assms(4))
  also have "\<dots> = cache_insert (cache_key b (entry_sizing_id (es ! j)) i (entry_kind (es ! j)))
      (entry_data (es ! j)) (cached_after b i es P c)"
    unfolding cached_after_def cache_insert_def by (intro upd_tasks_set cache_keys_inj assms(1-3))
  finally show ?thesis .
qed

lemma fanout_inv_start: "fanout_inv \<alpha> ctl i es w (replicate (length es) Spawned, w)"
proof -
  have "stored_after (bucket_id ctl) i es
      (\<lambda>j. replicate (length es) Spawned ! j = Stored \<or> replicate (length es) Spawned ! j = Done (Inr ()))
      M = stored_after (bucket_id ctl) i es (\<lambda>_. False) M" for M
    by (rule stored_after_cong) simp
  moreover have "cached_after (bucket_id ctl) i es (\<lambda>j. replicate (length es) Spawned ! j = Done (Inr ()))
      = (\<lambda>c. c)"
  proof
    fix c
    have "cached_after (bucket_id ctl) i es (\<lambda>j. replicate (length es) Spawned ! j = Done (Inr ()))
        = cached_after (bucket_id ctl) i es (\<lambda>_. False)"
      by (rule cached_after_cong) simp
    then show "cached_after (bucket_id ctl) i es (\<lambda>j. replicate (length es) Spawned ! j = Done (Inr ())) c = c"
      by (simp add: cached_after_def upd_tasks_none)
  qed
  ultimately show ?thesis
    by (simp add: fanout_inv_def stored_after_def upd_tasks_none option.map_ident)
qed

lemma fanout_inv_store:
  assumes contract: "storage_contract (storage ctl) \<alpha>"
    and keys: "distinct (map (entry_key (bucket_id ctl) i) es)"
    and inv: "fanout_inv \<alpha> ctl i es w0 (ts, w)"
  shows "fanout_inv \<alpha> ctl i es w0 (fanout_step ctl i es (StoreStep j) (ts, w))"
proof (cases "j < length ts \<and> ts ! j = Spawned")
  case False
  with inv show ?thesis by (simp only: fanout_step.simps if_not_P if_False)
next
  case True
  let ?b = "bucket_id ctl"
  obtain r w1 where st: "task_store ctl i (es ! j) w = (r, w1)" by fastforce
  note eff = task_store_world [OF contract st]
  from inv have len: "length ts = length es"
    and M: "\<alpha> (storage_state w) = stored_after ?b i es
          (\<lambda>j. ts ! j = Stored \<or> ts ! j = Done (Inr ())) (\<alpha> (storage_state w0))"
    and C: "bucket_cache w = map_option (cached_after ?b i es (\<lambda>j. ts ! j = Done (Inr ()))) (bucket_cache w0)"
    and G: "global_cache w = global_cache w0" and H: "hook_log w = hook_log w0"
    by (simp_all add: fanout_inv_def)
  have w1: "bucket_cache w1 = bucket_cache w" "global_cache w1 = global_cache w" "hook_log w1 = hook_log w"
    using eff by (metis world.ext_inject world.surjective world.update_convs(1))+
  show ?thesis
  proof (cases r)
    case (Inl e)
    have same: "\<And>m. m < length es \<Longrightarrow>
        (ts[j := Done (Inl e)] ! m = Stored \<or> ts[j := Done (Inl e)] ! m = Done (Inr ())) =
        (ts ! m = Stored \<or> ts ! m = Done (Inr ()))"
      "\<And>m. m < length es \<Longrightarrow> (ts[j := Done (Inl e)] ! m = Done (Inr ())) = (ts ! m = Done (Inr ()))"
      using True len by (auto simp: nth_list_update)
    from True st Inl eff M C G H w1 len show ?thesis
      by (simp add: fanout_inv_def stored_after_cong [OF same(1)] cached_after_cong [OF same(2)])
  next
    case (Inr u)
    have set: "\<And>m. m < length es \<Longrightarrow>
        (ts[j := Stored] ! m = Stored \<or> ts[j := Stored] ! m = Done (Inr ())) =
        ((\<lambda>m. ts ! m = Stored \<or> ts ! m = Done (Inr ()))(j := True)) m"
      and same: "\<And>m. m < length es \<Longrightarrow> (ts[j := Stored] ! m = Done (Inr ())) = (ts ! m = Done (Inr ()))"
      using True len by (auto simp: nth_list_update)
    have "stored_after ?b i es (\<lambda>m. ts[j := Stored] ! m = Stored \<or> ts[j := Stored] ! m = Done (Inr ()))
        (\<alpha> (storage_state w0)) = (\<alpha> (storage_state w))(entry_key ?b i (es ! j) \<mapsto> entry_data (es ! j))"
      using stored_after_set [OF keys, of j "\<lambda>m. ts ! m = Stored \<or> ts ! m = Done (Inr ())", OF _ _ set] True len M
      by simp
    with True st Inr eff C G H w1 len show ?thesis
      by (simp add: fanout_inv_def cached_after_cong [OF same])
  qed
qed

lemma fanout_inv_insert:
  assumes keys: "distinct (map (entry_key (bucket_id ctl) i) es)"
    and inv: "fanout_inv \<alpha> ctl i es w0 (ts, w)"
  shows "fanout_inv \<alpha> ctl i es w0 (fanout_step ctl i es (InsertStep j) (ts, w))"
proof (cases "j < length ts \<and> ts ! j = Stored")
  case False
  with inv show ?thesis by (simp only: fanout_step.simps if_not_P if_False)
next
  case True
  let ?b = "bucket_id ctl"
  from inv have len: "length ts = length es"
    and M: "\<alpha> (storage_state w) = stored_after ?b i es
          (\<lambda>j. ts ! j = Stored \<or> ts ! j = Done (Inr ())) (\<alpha> (storage_state w0))"
    and C: "bucket_cache w = map_option (cached_after ?b i es (\<lambda>j. ts ! j = Done (Inr ()))) (bucket_cache w0)"
    and G: "global_cache w = global_cache w0" and H: "hook_log w = hook_log w0"
    by (simp_all add: fanout_inv_def)
  have same: "\<And>m. m < length es \<Longrightarrow>
      (ts[j := Done (Inr ())] ! m = Stored \<or> ts[j := Done (Inr ())] ! m = Done (Inr ())) =
      (ts ! m = Stored \<or> ts ! m = Done (Inr ()))"
    and set: "\<And>m. m < length es \<Longrightarrow> (ts[j := Done (Inr ())] ! m = Done (Inr ())) =
      ((\<lambda>m. ts ! m = Done (Inr ()))(j := True)) m"
    using True len by (auto simp: nth_list_update)
  have "cached_after ?b i es (\<lambda>m. ts[j := Done (Inr ())] ! m = Done (Inr ())) =
      (\<lambda>c. cache_insert (cache_key ?b (entry_sizing_id (es ! j)) i (entry_kind (es ! j))) (entry_data (es ! j))
        (cached_after ?b i es (\<lambda>m. ts ! m = Done (Inr ())) c))"
    using cached_after_set [OF keys, of j "\<lambda>m. ts ! m = Done (Inr ())", OF _ _ set] True len by auto
  then have "bucket_cache (task_insert ctl i (es ! j) w) =
      map_option (cached_after ?b i es (\<lambda>m. ts[j := Done (Inr ())] ! m = Done (Inr ()))) (bucket_cache w0)"
    using C by (simp add: option.map_comp comp_def)
  with True M G H len show ?thesis
    by (simp add: fanout_inv_def stored_after_cong [OF same])
qed

lemma fanout_inv_run:
  assumes "storage_contract (storage ctl) \<alpha>" and "distinct (map (entry_key (bucket_id ctl) i) es)"
    and "fanout_inv \<alpha> ctl i es w0 s"
  shows "fanout_inv \<alpha> ctl i es w0 (fold (fanout_step ctl i es) sched s)"
  using assms(3)
proof (induction sched arbitrary: s)
  case Nil
  then show ?case by simp
next
  case (Cons ev sched)
  obtain ts w where s: "s = (ts, w)" by fastforce
  have "fanout_inv \<alpha> ctl i es w0 (fanout_step ctl i es ev s)"
    using Cons.prems assms(1,2) fanout_inv_store fanout_inv_insert unfolding s
    by (cases ev) blast+
  with Cons.IH show ?case by simp
qed

lemma task_store_fails:
  assumes fails: "store_fails (storage ctl) F" and run: "task_store ctl i e w = (r, w1)"
  shows "isl r = F (storage_state w) (entry_key (bucket_id ctl) i e) \<and> F (storage_state w1) = F (storage_state w)"
proof -
  obtain r0 st0 where s: "sb_store (storage ctl) (bucket_id ctl) i (entry_kind e) (entry_sizing_id e)
      (entry_data e) (storage_state w) = (r0, st0)" by fastforce
  from run s have "r = r0" "storage_state w1 = st0" by (auto simp: task_store_def storage_op_def)
  with fails [unfolded store_fails_def, rule_format, where b = "bucket_id ctl" and i = i
      and k = "entry_kind e" and s = "entry_sizing_id e" and d = "entry_data e" and st = "storage_state w"] s
  show ?thesis by (simp add: entry_key_def)
qed

lemma outcome_inv_step:
  assumes fails: "store_fails (storage ctl) F" and inv: "outcome_inv F F0 ctl i es (ts, w)"
  shows "outcome_inv F F0 ctl i es (fanout_step ctl i es ev (ts, w))"
proof (cases ev)
  case (StoreStep j)
  show ?thesis
  proof (cases "j < length ts \<and> ts ! j = Spawned")
    case False
    with inv StoreStep show ?thesis by (simp only: fanout_step.simps if_not_P if_False)
  next
    case True
    obtain r w1 where st: "task_store ctl i (es ! j) w = (r, w1)" by fastforce
    note f = task_store_fails [OF fails st]
    from inv have "F (storage_state w) = F0" and "\<forall>m < length ts. case ts ! m of
           Spawned \<Rightarrow> True
         | Stored \<Rightarrow> \<not> F0 (entry_key (bucket_id ctl) i (es ! m))
         | Done r \<Rightarrow> isl r = F0 (entry_key (bucket_id ctl) i (es ! m))"
      by (simp_all add: outcome_inv_def)
    with True st f StoreStep show ?thesis
      by (cases r) (auto simp: outcome_inv_def nth_list_update)
  qed
next
  case (InsertStep j)
  show ?thesis
  proof (cases "j < length ts \<and> ts ! j = Stored")
    case False
    with inv InsertStep show ?thesis by (simp only: fanout_step.simps if_not_P if_False)
  next
    case True
    from inv have "F (storage_state w) = F0" and T: "\<forall>m < length ts. case ts ! m of
           Spawned \<Rightarrow> True
         | Stored \<Rightarrow> \<not> F0 (entry_key (bucket_id ctl) i (es ! m))
         | Done r \<Rightarrow> isl r = F0 (entry_key (bucket_id ctl) i (es ! m))"
      by (simp_all add: outcome_inv_def)
    moreover from T True have "\<not> F0 (entry_key (bucket_id ctl) i (es ! j))" by force
    ultimately show ?thesis using True InsertStep
      by (auto simp: outcome_inv_def nth_list_update)
  qed
qed

lemma outcome_inv_run:
  assumes "store_fails (storage ctl) F" and "outcome_inv F F0 ctl i es s"
  shows "outcome_inv F F0 ctl i es (fold (fanout_step ctl i es) sched s)"
  using assms(2)
proof (induction sched arbitrary: s)
  case Nil
  then show ?case by simp
next
  case (Cons ev sched)
  obtain ts w where s: "s = (ts, w)" by fastforce
  have "outcome_inv F F0 ctl i es (fanout_step ctl i es ev s)"
    using outcome_inv_step [OF assms(1)] Cons.prems unfolding s by blast
  with Cons.IH show ?case by simp
qed

subsection \<open>Complete runs\<close>

lemma fanout_complete_nth:
  "fanout_complete ts \<Longrightarrow> m < length ts \<Longrightarrow> ts ! m \<noteq> Spawned \<and> ts ! m \<noteq> Stored"
  by (auto simp: fanout_complete_def list_all_length)

text \<open>
  After a complete run with distinct keys, the storage holds the writes of the
  tasks that succeeded and the bucket cache their inserts, whatever the schedule.
\<close>

lemma fanout_final:
  assumes contract: "storage_contract (storage ctl) \<alpha>"
    and keys: "distinct (map (entry_key (bucket_id ctl) i) es)"
    and run: "run_schedule ctl i es sched w = (ts, w')" and complete: "fanout_complete ts"
  shows "length ts = length es \<and>
    \<alpha> (storage_state w') = stored_after (bucket_id ctl) i es (\<lambda>j. ts ! j = Done (Inr ())) (\<alpha> (storage_state w)) \<and>
    bucket_cache w' = map_option (cached_after (bucket_id ctl) i es (\<lambda>j. ts ! j = Done (Inr ()))) (bucket_cache w) \<and>
    global_cache w' = global_cache w \<and> hook_log w' = hook_log w"
proof -
  have "fanout_inv \<alpha> ctl i es w (fold (fanout_step ctl i es) sched (replicate (length es) Spawned, w))"
    by (rule fanout_inv_run [OF contract keys fanout_inv_start])
  with run have "fanout_inv \<alpha> ctl i es w (ts, w')" by (simp add: run_schedule_def)
  moreover have "stored_after (bucket_id ctl) i es (\<lambda>j. ts ! j = Stored \<or> ts ! j = Done (Inr ())) M =
      stored_after (bucket_id ctl) i es (\<lambda>j. ts ! j = Done (Inr ())) M" if "length ts = length es" for M
    using fanout_complete_nth [OF complete] that by (intro stored_after_cong) auto
  ultimately show ?thesis by (simp add: fanout_inv_def)
qed

text \<open>With key-determined failures, a task of a complete run succeeded iff its key does not fail.\<close>

lemma outcome_final:
  assumes fails: "store_fails (storage ctl) F"
    and run: "run_schedule ctl i es sched w = (ts, w')" and complete: "fanout_complete ts"
  shows "length ts = length es \<and> F (storage_state w') = F (storage_state w) \<and>
    (\<forall>j < length es. (ts ! j = Done (Inr ())) = (\<not> F (storage_state w) (entry_key (bucket_id ctl) i (es ! j)))) \<and>
    map (\<lambda>t. isl (the (task_done t))) ts = map (\<lambda>e. F (storage_state w) (entry_key (bucket_id ctl) i e)) es"
proof -
  let ?F0 = "F (storage_state w)"
  have len: "length (fst (fold (fanout_step ctl i es) sched s)) = length (fst s)" for s
  proof (induction sched arbitrary: s)
    case Nil
    then show ?case by simp
  next
    case (Cons ev sched)
    obtain ts0 w0 where "s = (ts0, w0)" by fastforce
    moreover have "length (fst (fanout_step ctl i es ev (ts0, w0))) = length ts0"
      by (cases ev) (auto split: prod.splits sum.splits)
    ultimately show ?case using Cons.IH [of "fanout_step ctl i es ev s"] by simp
  qed
  from len [of "(replicate (length es) Spawned, w)"] run have l: "length ts = length es"
    by (simp add: run_schedule_def)
  have "outcome_inv F ?F0 ctl i es (replicate (length es) Spawned, w)"
    by (simp add: outcome_inv_def)
  from outcome_inv_run [OF fails this, where sched = sched] run
  have "outcome_inv F ?F0 ctl i es (ts, w')" by (simp add: run_schedule_def)
  then have F: "F (storage_state w') = ?F0" and T: "\<forall>m < length ts. case ts ! m of
           Spawned \<Rightarrow> True
         | Stored \<Rightarrow> \<not> ?F0 (entry_key (bucket_id ctl) i (es ! m))
         | Done r \<Rightarrow> isl r = ?F0 (entry_key (bucket_id ctl) i (es ! m))"
    by (simp_all add: outcome_inv_def)
  have D: "\<exists>r. ts ! m = Done r \<and> isl r = ?F0 (entry_key (bucket_id ctl) i (es ! m))" if "m < length es" for m
    using fanout_complete_nth [OF complete, of m] T that l by (cases "ts ! m") auto
  have "(ts ! j = Done (Inr ())) = (\<not> ?F0 (entry_key (bucket_id ctl) i (es ! j)))" if jl: "j < length es" for j
  proof -
    obtain r where "ts ! j = Done r" and "isl r = ?F0 (entry_key (bucket_id ctl) i (es ! j))"
      using D [OF jl] by blast
    then show ?thesis by (cases r) auto
  qed
  moreover have "map (\<lambda>t. isl (the (task_done t))) ts = map (\<lambda>e. ?F0 (entry_key (bucket_id ctl) i e)) es"
  proof (rule nth_equalityI)
    show "length (map (\<lambda>t. isl (the (task_done t))) ts) = length (map (\<lambda>e. ?F0 (entry_key (bucket_id ctl) i e)) es)"
      using l by simp
    fix m assume "m < length (map (\<lambda>t. isl (the (task_done t))) ts)"
    with l have m: "m < length es" by simp
    with D [OF m] l show "map (\<lambda>t. isl (the (task_done t))) ts ! m = map (\<lambda>e. ?F0 (entry_key (bucket_id ctl) i e)) es ! m"
      by auto
  qed
  ultimately show ?thesis using l F by blast
qed

subsection \<open>Tasks run one after another\<close>

lemma run_in_order:
  assumes "distinct js" and "\<forall>j \<in> set js. j < length ts \<and> ts ! j = Spawned"
  shows "snd (fold (fanout_step ctl i es) (in_order js) (ts, w)) = snd (run_tasks ctl i (map ((!) es) js) w) \<and>
    length (fst (fold (fanout_step ctl i es) (in_order js) (ts, w))) = length ts \<and>
    (\<forall>j \<in> set js. task_done (fst (fold (fanout_step ctl i es) (in_order js) (ts, w)) ! j) \<noteq> None) \<and>
    (\<forall>k. k \<notin> set js \<longrightarrow> fst (fold (fanout_step ctl i es) (in_order js) (ts, w)) ! k = ts ! k)"
  using assms
proof (induction js arbitrary: ts w)
  case Nil
  then show ?case by (simp add: in_order_def)
next
  case (Cons j js)
  obtain r1 w1 where t: "fanout_task ctl i (es ! j) w = (r1, w1)" by fastforce
  have first: "fold (fanout_step ctl i es) [StoreStep j, InsertStep j] (ts, w) = (ts[j := Done r1], w1)"
    using fanout_step_task [of j ts ctl i es w] Cons.prems(2) t by simp
  have pre: "distinct js" "\<forall>j' \<in> set js. j' < length (ts[j := Done r1]) \<and> ts[j := Done r1] ! j' = Spawned"
    using Cons.prems by (auto simp: nth_list_update)
  note IH = Cons.IH [OF pre, of w1]
  have eq: "fold (fanout_step ctl i es) (in_order (j # js)) (ts, w) =
      fold (fanout_step ctl i es) (in_order js) (ts[j := Done r1], w1)"
    using first by (simp add: in_order_def)
  have rt: "snd (run_tasks ctl i (map ((!) es) (j # js)) w) = snd (run_tasks ctl i (map ((!) es) js) w1)"
    using t by (simp split: prod.splits)
  show ?case
    unfolding eq rt using IH Cons.prems by auto
qed

lemma run_schedule_in_order:
  assumes "distinct js" and "set js = {..<length es}"
    and "run_schedule ctl i es (in_order js) w = (ts, w')"
  shows "w' = snd (run_tasks ctl i (map ((!) es) js) w) \<and> fanout_complete ts"
proof -
  have "\<forall>j \<in> set js. j < length (replicate (length es) Spawned) \<and> replicate (length es) Spawned ! j = Spawned"
    using assms(2) by auto
  note r = run_in_order [OF assms(1) this, of ctl i es w]
  with assms(3) have "w' = snd (run_tasks ctl i (map ((!) es) js) w)" "length ts = length es"
    and "\<forall>j \<in> set js. task_done (ts ! j) \<noteq> None"
    by (simp_all add: run_schedule_def)
  with assms(2) show ?thesis by (auto simp: fanout_complete_def list_all_length)
qed

lemma store_all_append: "store_all b i (xs @ ys) M = store_all b i ys (store_all b i xs M)"
  by (simp add: store_all_def)

text \<open>Tasks run one after another in the order \<open>js\<close>, none failing: the storage holds
  every entry, the last of a shared key winning.\<close>

lemma fanout_in_order_store_all:
  assumes contract: "storage_contract (storage ctl) \<alpha>" and fails: "store_fails (storage ctl) F"
    and ok: "\<forall>K. \<not> F (storage_state w) K"
    and js: "distinct js" "set js = {..<length es}"
  shows "\<exists>ts w1. run_schedule ctl i es (in_order js) w = (ts, w1) \<and> fanout_complete ts \<and>
    \<alpha> (storage_state w1) = store_all (bucket_id ctl) i (map ((!) es) js) (\<alpha> (storage_state w))"
proof -
  obtain ts w1 where run: "run_schedule ctl i es (in_order js) w = (ts, w1)" by fastforce
  from run_schedule_in_order [OF js run] have w1: "w1 = snd (run_tasks ctl i (map ((!) es) js) w)"
    and c: "fanout_complete ts" by simp_all
  obtain rs w2 where rt: "run_tasks ctl i (map ((!) es) js) w = (rs, w2)" by fastforce
  note st = run_tasks_storage [OF contract rt]
  from run_tasks_fails [OF fails rt] have "map isl rs = map (\<lambda>e. F (storage_state w) (entry_key (bucket_id ctl) i e))
      (map ((!) es) js)" by simp
  from map_isl_all [OF this] ok have "\<forall>r \<in> set rs. \<not> isl r" by simp
  with st apply_results_all_ok [of rs "map ((!) es) js"] rt w1 run c show ?thesis by simp
qed

subsection \<open>Properties of the interleaved fan-out\<close>

text \<open>
  C3: whatever order the runtime interleaves the tasks' steps in, once every task
  has finished the bucket's cache agrees with the storage again, provided the
  entries have distinct variant keys and the bucket reads its own cache (or none).
  Between the steps the two may disagree (a task has written but not yet inserted),
  as the specification allows.
\<close>

theorem fanout_schedule_keeps_agreement:
  assumes contract: "storage_contract (storage ctl) \<alpha>"
    and inv: "world_inv (bucket_id ctl) \<alpha> w" and cb: "cache_backend w \<noteq> Some GlobalCache"
    and keys: "distinct (map (entry_key (bucket_id ctl) i) es)"
    and run: "run_schedule ctl i es sched w = (ts, w')" and complete: "fanout_complete ts"
  shows "world_inv (bucket_id ctl) \<alpha> w'"
proof -
  let ?b = "bucket_id ctl" and ?P = "\<lambda>j. ts ! j = Done (Inr ())"
  note fin = fanout_final [OF contract keys run complete]
  show ?thesis
  proof (cases "bucket_cache w")
    case None
    with cb fin have "cache_backend w' = None"
      by (auto simp: cache_backend_def split: if_splits)
    then show ?thesis by (simp add: world_inv_def)
  next
    case (Some c)
    with inv have "cache_agrees ?b (\<alpha> (storage_state w)) c"
      by (auto simp: world_inv_def cache_backend_def the_cache_def)
    then have "cache_agrees ?b (stored_after ?b i es ?P (\<alpha> (storage_state w))) (cached_after ?b i es ?P c)"
      unfolding stored_after_def cached_after_def entry_key_def by (rule cache_agrees_upd_tasks)
    moreover from Some fin have "bucket_cache w' = Some (cached_after ?b i es ?P c)" by simp
    ultimately show ?thesis
      using fin by (auto simp: world_inv_def cache_backend_def the_cache_def split: cache_ref.splits)
  qed
qed

text \<open>
  C24: with distinct variant keys and writes whose failure depends on the key only,
  every complete interleaving of the fan-out ends as the sequential
  \<open>run_tasks\<close> does: the same storage contents, the same caches and the same
  outcome of every task. The model of the handlers, which runs the tasks one after
  another in list order, is thus exact for such fan-outs.
\<close>

theorem fanout_schedule_equals_serial:
  assumes contract: "storage_contract (storage ctl) \<alpha>" and fails: "store_fails (storage ctl) F"
    and keys: "distinct (map (entry_key (bucket_id ctl) i) es)"
    and run: "run_schedule ctl i es sched w = (ts, w')" and complete: "fanout_complete ts"
  shows "map (\<lambda>t. isl (the (task_done t))) ts = map isl (fst (run_tasks ctl i es w)) \<and>
    \<alpha> (storage_state w') = \<alpha> (storage_state (snd (run_tasks ctl i es w))) \<and>
    bucket_cache w' = bucket_cache (snd (run_tasks ctl i es w)) \<and>
    global_cache w' = global_cache (snd (run_tasks ctl i es w))"
proof -
  let ?b = "bucket_id ctl"
  obtain ts2 w2 where run2: "run_schedule ctl i es (in_order [0..<length es]) w = (ts2, w2)" by fastforce
  have "set [0..<length es] = {..<length es}" by auto
  from run_schedule_in_order [OF _ this run2] have w2: "w2 = snd (run_tasks ctl i es w)"
    and complete2: "fanout_complete ts2"
    by (simp_all add: map_nth)
  note f1 = fanout_final [OF contract keys run complete] and o1 = outcome_final [OF fails run complete]
  note f2 = fanout_final [OF contract keys run2 complete2] and o2 = outcome_final [OF fails run2 complete2]
  have same: "\<And>m. m < length es \<Longrightarrow> (ts ! m = Done (Inr ())) = (ts2 ! m = Done (Inr ()))"
    using o1 o2 by simp
  obtain rs w3 where rt: "run_tasks ctl i es w = (rs, w3)" by fastforce
  from run_tasks_fails [OF fails rt] o1 rt
  have "map (\<lambda>t. isl (the (task_done t))) ts = map isl (fst (run_tasks ctl i es w))" by simp
  moreover have "\<alpha> (storage_state w') = \<alpha> (storage_state w2)"
    using f1 f2 stored_after_cong [OF same] by simp
  moreover have "bucket_cache w' = bucket_cache w2"
    using f1 f2 cached_after_cong [OF same] by simp
  moreover have "global_cache w' = global_cache w2" using f1 f2 by simp
  ultimately show ?thesis using w2 by simp
qed

text \<open>
  C34: the distinct keys of C3 are needed. When two entries share a variant key
  but not their bytes and both writes succeed, the schedule that writes the first
  entry, writes the second, inserts the second and then inserts the first is
  complete and leaves the bucket's cache holding the first entry while the
  storage holds the second: a later cache-aside read serves bytes the storage no
  longer has.
\<close>

theorem fanout_shared_key_breaks_agreement:
  assumes contract: "storage_contract (storage ctl) \<alpha>" and fails: "store_fails (storage ctl) F"
    and ok: "\<forall>K. \<not> F (storage_state w) K" and bc: "bucket_cache w = Some c"
    and key: "entry_key (bucket_id ctl) i e2 = entry_key (bucket_id ctl) i e1"
    and diff: "entry_data e1 \<noteq> entry_data e2"
  shows "\<exists>ts w'. run_schedule ctl i [e1, e2] [StoreStep 0, StoreStep 1, InsertStep 1, InsertStep 0] w = (ts, w') \<and>
    fanout_complete ts \<and> \<not> world_inv (bucket_id ctl) \<alpha> w'"
proof -
  let ?b = "bucket_id ctl"
  let ?K = "entry_key ?b i e1" and ?ck = "cache_key ?b (entry_sizing_id e1) i (entry_kind e1)"
  have ck2: "cache_key ?b (entry_sizing_id e2) i (entry_kind e2) = ?ck"
    using key by (simp add: entry_key_def)
  obtain r1 w1 where s1: "task_store ctl i e1 w = (r1, w1)" by fastforce
  note f1 = task_store_fails [OF fails s1] and m1 = task_store_world [OF contract s1]
  have nf: "\<not> F (storage_state w) ?K" using ok by blast
  with f1 have r1: "r1 = Inr ()" by (cases r1) auto
  obtain r2 w2 where s2: "task_store ctl i e2 w1 = (r2, w2)" by fastforce
  note f2 = task_store_fails [OF fails s2] and m2 = task_store_world [OF contract s2]
  with nf f1 key have r2: "r2 = Inr ()" by (cases r2) auto
  let ?w' = "task_insert ctl i e1 (task_insert ctl i e2 w2)"
  have run: "run_schedule ctl i [e1, e2] [StoreStep 0, StoreStep 1, InsertStep 1, InsertStep 0] w =
      ([Done (Inr ()), Done (Inr ())], ?w')"
    using s1 s2 r1 r2 by (simp add: run_schedule_def)
  have "bucket_cache w1 = Some c" "bucket_cache w2 = Some c"
    using m1 m2 bc by (metis world.ext_inject world.surjective world.update_convs(1))+
  then have cache: "bucket_cache ?w' = Some (cache_insert ?ck (entry_data e1) (cache_insert ?ck (entry_data e2) c))"
    using ck2 by simp
  have stored: "\<alpha> (storage_state ?w') ?K = Some (entry_data e2)"
    using m1 m2 r1 r2 key by simp
  have "\<not> cache_agrees ?b (\<alpha> (storage_state ?w')) (cache_insert ?ck (entry_data e1) (cache_insert ?ck (entry_data e2) c))"
    unfolding cache_agrees_def
  proof
    assume "\<forall>s j k v. cache_get (cache_key ?b s j k) (cache_insert ?ck (entry_data e1) (cache_insert ?ck (entry_data e2) c)) = Some v \<longrightarrow>
        \<alpha> (storage_state ?w') (?b, j, k, s) = Some v"
    from this [rule_format, of "entry_sizing_id e1" i "entry_kind e1" "entry_data e1"]
    show False using stored diff by (simp add: entry_key_def)
  qed
  with cache have "\<not> world_inv ?b \<alpha> ?w'"
    by (auto simp: world_inv_def cache_backend_def the_cache_def)
  with run show ?thesis by (auto simp: fanout_complete_def)
qed

end
