(* ===== verification/Spec2Isabelle.thy ===== *)
theory Spec2Isabelle
  imports Admission Registry Gcp Backends Fanout
begin

text \<open>
  \<^bold>\<open>A verification library for the bucket controller of lust\<close>

  lust serves images out of buckets: \<open>BucketController\<close>
  (\<open>src/src/controller.rs\<close>) admits a call under an optional global or per-bucket
  semaphore, runs the bucket's pipeline (\<open>src/src/pipelines/register.rs\<close>) on
  uploads and fetches, writes the derived variants to a storage backend
  (\<open>src/src/storage/template.rs\<close>, one implementation in
  \<open>src/src/storage/backends/gcp_cloud_storage.rs\<close>, chosen by
  \<open>src/src/storage/backends/register.rs\<close>) and mirrors them in a byte cache,
  reading through that cache on fetch. A process-wide registry maps bucket ids to
  controllers. Identity is content-addressed (\<open>src/src/utils.rs\<close>).

  \<^bold>\<open>Theories, from the leaves.\<close>
  \<^item> \<open>Prelude\<close>: \<open>u32\<close> as \<open>32 word\<close>, bytes as \<open>8 word list\<close>, the error type
    standing for \<open>anyhow::Error\<close>, \<open>qbind\<close> (Rust's \<open>?\<close> on an explicit state),
    splitting strings at separators.
  \<^item> \<open>Utils\<close>: CRC-32 bit by bit and the streaming \<open>crc32fast::Hasher\<close>;
    \<open>crc_hash\<close> (Rust's \<open>Hash\<close> for strings: the bytes, then \<open>0xff\<close>); hex
    encoding and \<open>sha256_hash\<close> over a digest parameter.
  \<^item> \<open>Config\<close>: \<open>image_kind\<close> (an \<open>enum\<close> instance), \<open>processing_mode\<close>,
    \<open>bucket_config\<close>, \<open>sizing_preset_ids\<close> (from the specification: the config
    module is not among the sources).
  \<^item> \<open>Keys\<close>: decimal rendering of \<open>u32\<close> with its parser, \<open>cache_key\<close> and the
    GCP object path \<open>format_path\<close>; both keys are injective.
  \<^item> \<open>Cache\<close>: the cache capability of the specification (\<open>get\<close>,
    \<open>insert\<close>, \<open>invalidate\<close>) as a map from keys to bytes.
  \<^item> \<open>Storage\<close>: the \<open>StorageBackend\<close> interface as a record of fallible steps,
    the contract of the specification against an abstraction map, and an
    in-memory reference backend proved to meet it.
  \<^item> \<open>Pipeline\<close>: \<open>StoreEntry\<close>, \<open>PipelineResult\<close>, the \<open>Pipeline\<close> trait as a
    record of its hooks, the \<open>PipelineSelector\<close> dispatch, and the ahead-of-time
    pipeline of the specification (every kind at every sizing).
  \<^item> \<open>Controller\<close>: the controller record and the world it mutates (backend
    state, the bucket's cache, the process-wide cache, a ghost log of pipeline
    hooks); admission (\<open>acquire\<close>, \<open>get_optional_permit\<close>, \<open>with_permit\<close>),
    \<open>caching_fetch\<close>, the fan-out (\<open>fanout_task\<close>, \<open>run_tasks\<close>,
    \<open>first_error\<close>, \<open>concurrent_upload\<close>) and the handlers \<open>upload\<close>,
    \<open>fetch\<close>, \<open>delete\<close>; the agreement invariant \<open>world_inv\<close> between the
    cache a bucket reads and its storage.
  \<^item> \<open>Fanout\<close>: the spawned tasks of \<open>concurrent_upload\<close> as two steps each (the
    backend write, then the cache insert if the write succeeded) run in any
    interleaving (\<open>fanout_step\<close>, \<open>run_schedule\<close>), with the closed form of the
    state of a run (\<open>fanout_inv\<close>, \<open>outcome_inv\<close>) and the sequential
    \<open>run_tasks\<close> as the schedule \<open>in_order\<close>.
  \<^item> \<open>Admission\<close>: many concurrent calls over the shared semaphores as the step
    relation \<open>adm_step\<close> (arrival, start, acquisition of a free permit, release
    on exit) with its reachable states; \<open>limiter_for\<close> is the choice
    \<open>get_optional_permit\<close> makes (\<open>get_optional_permit_limiter_for\<close>). The
    invariant \<open>adm_inv\<close> (free permits plus holders equal the capacity) is
    proved by rule induction; it gives the bounds on concurrent calls and the
    absence of lost permits.
  \<^item> \<open>Registry\<close>: the \<open>OnceCell\<close> of buckets as an explicit option of a map,
    \<open>init_buckets\<close>, \<open>get_bucket_by_id\<close> (with its \<open>get_or_init\<close>),
    \<open>get_bucket_by_name\<close>, and runs of start-up and lookups in any order.
  \<^item> \<open>Gcp\<close>: \<open>GCPCloudStorageBackend\<close> over a model of the remote bucket (an
    object map in which reading or deleting a missing object fails, as the service
    answers 404), its \<open>delete\<close> reading the configuration from the registry; it
    is set against the storage contract.
  \<^item> \<open>Backends\<close>: \<open>BackendConfigs\<close> and \<open>connect\<close>, and
    \<open>GCPCloudStorageBackend::new\<close>, over a process environment holding the
    \<open>SERVICE_ACCOUNT\<close> variable, the credentials the client reads from it once,
    and the remote service's grants.

  \<^bold>\<open>What the lemmas show.\<close> The claims C1 to C34 are marked in the theories.
  Reads through the cache return what the storage holds (C1), and the cache keeps
  agreeing with the storage through a fan-out whatever the interleaving of its
  tasks, when the entries' keys are distinct (C3; two entries sharing a key and
  not their bytes break it, C34), through deletes (C5) and up to
  a fetch after a delete (C27); the process-wide cache is never invalidated by
  \<open>delete\<close> (C6). The fan-out cancels no task (C4); with distinct keys every
  interleaving of its tasks ends as the sequential run (C24) and the order of the
  entries does not matter (C32). The cache key is injective (C2) and bounded in
  length (C31). Admission: the global limiter wins (C7), zero permits block every
  call (C8), and over concurrent calls the limits hold, an exhausted semaphore has
  a holder and waiting calls can be admitted (C14 to C16, C26). Fetch by mode (C9
  to C11, C28), upload and its reports (C12, C13), the specification's end-to-end
  scenario (C33). The registry is fixed by its first write, also when that write
  is the empty map of an early lookup (C17, C18). The GCP backend reads back what
  it stores, but does not meet the contract on empty objects, missing variants
  and \<open>delete\<close> (C19 to C23). \<open>connect\<close> builds the configured backend, and the
  first GCP backend fixes the credentials of all (C29, C30). A preset whose name
  hashes to 0 shares every key with the original, and which of the two encodings
  survives depends on the order the fan-out's tasks finish (C25, with such a
  name).

  \<^bold>\<open>Correspondence.\<close> Each struct is a record, each enum a datatype, each
  method a definition of the same name taking the controller as its first
  argument; every \<open>?\<close> is a \<open>qbind\<close>, every early return a branch. Admission in
  a single call is exact: \<open>acquire\<close> on a closed semaphore is \<open>AcquireError\<close>,
  on one without free permits it never completes, which the handlers return as
  \<open>None\<close> (in a single call nothing else can release a permit); the permit is
  released on every exit, so the sequential world keeps no permit count. The
  admission of many calls at once is the separate step relation of
  \<open>Admission\<close>. The handlers run the spawned fan-out tasks one after another in
  list order; \<open>Fanout\<close> models every interleaving of their steps, and C24 shows
  the sequential run exact for entries with distinct keys; for entries sharing a
  key (C25, C34) the handlers' statements about storage describe the list-order
  schedule only. The registry is an explicit cell, passed to the GCP backend as
  part of its state.

  \<^bold>\<open>Not modelled.\<close> Wall-clock timings of \<open>UploadInfo\<close> (diagnostic only); the
  SHA-256 compression (a library; a parameter \<open>D\<close>); pixel transforms (the
  pipelines are parameters, the ahead-of-time one modelled from the
  specification over a black-box \<open>encode\<close>); the cache's eviction policy
  (\<open>crate::cache\<close> is not among the sources and the specification states none:
  an eviction between calls is a start world with fewer entries, which every
  theorem covers); the S3, filesystem and Scylla backends (not among the sources;
  \<open>connect\<close> takes the outcome of their constructors as a parameter); the
  authentication protocol of the GCP client (a list of grants); a backend call that
  hangs (every backend step of the model returns); task panics
  (\<open>JoinError\<close>); the point at which the join returns before later tasks finish
  (the model states the world once every task has finished).

  \<^bold>\<open>Evaluation.\<close> Witnesses run the handlers on an example bucket (\<open>demo_ctl\<close>,
  the in-memory backend) by \<open>simp\<close>; CRC registers of preset names are computed
  byte by byte (\<open>thumb_step_1\<close>, \<open>zero_step_1\<close> and following) by
  \<open>code_simp\<close>, which is fast on one byte and slow on a whole fold. No handler
  needs fuel: every loop of the code runs over a finite list, and a schedule of the
  fan-out is a finite list of steps.

  \<^bold>\<open>Plan of the remaining work.\<close> The just-in-time memoisation property of the
  specification (a derived variant is served without a second hook call once stored,
  which the code contradicts: C10); the realtime and just-in-time pipelines (not
  among the sources); the return point of the join with its partial results.
\<close>

section \<open>An example bucket\<close>

definition demo_config :: bucket_config where
  "demo_config = \<lparr>mode = Aot, formats = \<lparr>original_image_store_format = Png\<rparr>,
     default_serving_preset = None, max_concurrency = None, presets = []\<rparr>"

definition demo_ctl :: "mem_storage bucket_controller" where
  "demo_ctl = \<lparr>bucket_id = 1, global_limiter = None, config = demo_config,
     pipeline = aot_pipeline (\<lambda>_ _ _ d. d) demo_config, storage = mem_backend, limiter = None\<rparr>"

definition demo_world :: "mem_storage world" where
  "demo_world = \<lparr>storage_state = \<lparr>objects = [((1, ''ab'', Png, 0), [7])], failing = []\<rparr>,
     bucket_cache = Some cache_new, global_cache = None, hook_log = []\<rparr>"

definition demo_entries :: "store_entry list" where
  "demo_entries =
     [\<lparr>entry_data = [1], entry_kind = Png, entry_sizing_id = 3\<rparr>,
      \<lparr>entry_data = [2], entry_kind = Png, entry_sizing_id = 5\<rparr>]"

text \<open>A backend whose write of the first entry's variant fails.\<close>

definition demo_failing_world :: "mem_storage world" where
  "demo_failing_world =
     demo_world\<lparr>storage_state := \<lparr>objects = [], failing = [(1, ''ab'', Png, 3)]\<rparr>\<rparr>"

text \<open>The same bucket after a read of the original: its own cache holds the variant.\<close>

definition demo_cached_world :: "mem_storage world" where
  "demo_cached_world =
     demo_world\<lparr>bucket_cache := Some [cache_key 1 0 ''ab'' Png \<mapsto> [7]]\<rparr>"

text \<open>A bucket without a cache of its own whose reads went through the process-wide cache.\<close>

definition demo_global_world :: "mem_storage world" where
  "demo_global_world =
     demo_world\<lparr>bucket_cache := None,
                global_cache := Some [cache_key 1 0 ''ab'' Png \<mapsto> [7]]\<rparr>"

text \<open>Admission: a global semaphore with one permit and a local one with none.\<close>

definition demo_ctl_global :: "mem_storage bucket_controller" where
  "demo_ctl_global = demo_ctl\<lparr>global_limiter := Some (semaphore_new 1), limiter := Some (semaphore_new 0)\<rparr>"

text \<open>The same bucket in just-in-time and in realtime mode.\<close>

definition demo_ctl_jit :: "mem_storage bucket_controller" where
  "demo_ctl_jit = demo_ctl\<lparr>config := demo_config\<lparr>mode := Jit\<rparr>\<rparr>"

definition demo_ctl_realtime :: "mem_storage bucket_controller" where
  "demo_ctl_realtime = demo_ctl\<lparr>config := demo_config\<lparr>mode := Realtime\<rparr>\<rparr>"

text \<open>
  Admission across buckets: the limiters of a process with one global permit and
  no local limiters, and of one with no global limiter and one local permit per
  bucket; and the state after two calls on buckets 1 and 2, the first holding a
  permit of \<open>sid\<close>, the second waiting.
\<close>

definition demo_adm_global :: adm_config where
  "demo_adm_global = adm_config_of (Some (semaphore_new 1)) (\<lambda>_. None)"

definition demo_adm_local :: adm_config where
  "demo_adm_local = adm_config_of None (\<lambda>_. Some (semaphore_new 1))"

definition demo_adm_state :: "adm_config \<Rightarrow> sem_id \<Rightarrow> adm_state" where
  "demo_adm_state cfg sid =
     \<lparr>avail = (cap cfg)(sid := cap cfg sid - 1),
      calls = [\<lparr>call_bucket = 1, call_phase = Holding (Some sid)\<rparr>,
               \<lparr>call_bucket = 2, call_phase = Waiting\<rparr>]\<rparr>"

text \<open>
  The Google Cloud Storage backend holding the original of image \<open>''ab''\<close> of
  bucket 1 (what an ahead-of-time upload to \<open>demo_config\<close> stores), with
  the bucket registered; and the same image with every kind at sizing id 0.
\<close>

definition demo_gcp :: gcp_state where
  "demo_gcp = \<lparr>gcs_objects = [format_path 1 0 ''ab'' Png \<mapsto> [7]], gcs_failing = [],
     gcp_registry = Some [1 \<mapsto> demo_config]\<rparr>"

definition demo_gcp_full :: gcp_state where
  "demo_gcp_full = demo_gcp\<lparr>gcs_objects :=
     [format_path 1 0 ''ab'' Png \<mapsto> [7], format_path 1 0 ''ab'' Jpeg \<mapsto> [8],
      format_path 1 0 ''ab'' Gif \<mapsto> [9], format_path 1 0 ''ab'' Webp \<mapsto> [10]]\<rparr>"

text \<open>
  The scenario of the specification's end-to-end test: the example bucket with the
  sizing preset \<open>thumb\<close> of 64 by 64 pixels.
\<close>

definition demo_thumb_config :: bucket_config where
  "demo_thumb_config = demo_config\<lparr>presets := [(''thumb'', (64, 64))]\<rparr>"

definition demo_ctl_thumb :: "mem_storage bucket_controller" where
  "demo_ctl_thumb = demo_ctl\<lparr>config := demo_thumb_config,
     pipeline := aot_pipeline (\<lambda>_ _ _ d. d) demo_thumb_config\<rparr>"

text \<open>
  A process whose remote storage service lets account \<open>sa-a.json\<close> read bucket
  \<open>images-a\<close> and account \<open>sa-b.json\<close> read bucket \<open>images-b\<close>, before any
  request; and backend constructors that succeed.
\<close>

definition demo_gcp_env :: gcp_env where
  "demo_gcp_env = \<lparr>env_vars = Map.empty, service_account = None,
     grants = [(''images-a'', ''sa-a.json''), (''images-b'', ''sa-b.json'')]\<rparr>"

definition demo_io :: backend_io where
  "demo_io = \<lparr>blob_storage_new = (\<lambda>_ _ _ _. None), scylla_connect = (\<lambda>_ _ _ _ _. None)\<rparr>"

text \<open>
  The same bucket with an encoder whose thumbnails differ from the original: the
  preset keeps the first byte only.
\<close>

definition demo_encode :: "image_kind \<Rightarrow> image_kind \<Rightarrow> (u32 \<times> u32) option \<Rightarrow> bytes \<Rightarrow> bytes" where
  "demo_encode _ _ dims d = (case dims of None \<Rightarrow> d | Some _ \<Rightarrow> take 1 d)"

definition demo_ctl_spec :: "mem_storage bucket_controller" where
  "demo_ctl_spec = demo_ctl_thumb\<lparr>pipeline := aot_pipeline demo_encode demo_thumb_config\<rparr>"

text \<open>
  A preset whose name has CRC-32 zero (with the \<open>0xff\<close> that \<open>Hash for str\<close>
  appends), so that its sizing id is the original's.
\<close>

definition demo_zero_config :: bucket_config where
  "demo_zero_config = demo_config\<lparr>presets := [(''ikklkacnce'', (64, 64))]\<rparr>"

definition demo_ctl_zero :: "mem_storage bucket_controller" where
  "demo_ctl_zero = demo_ctl\<lparr>config := demo_zero_config,
     pipeline := aot_pipeline demo_encode demo_zero_config\<rparr>"

lemmas demo_defs = demo_config_def demo_ctl_def demo_world_def mem_backend_def
  mem_store_def mem_fetch_def mem_delete_def mem_contents_def demo_entries_def
  demo_failing_world_def demo_cached_world_def demo_global_world_def
  demo_ctl_global_def demo_ctl_jit_def demo_ctl_realtime_def

lemma demo_contract: "storage_contract (storage demo_ctl) mem_contents"
  by (simp add: demo_ctl_def mem_backend_contract)

lemma demo_adm_global_reachable: "adm_reachable demo_adm_global (demo_adm_state demo_adm_global Global)"
  unfolding demo_adm_state_def
  by (rule adm_two_calls_reachable)
     (simp_all add: demo_adm_global_def adm_config_of_def limiter_for_def cap_def semaphore_new_def)

lemma demo_adm_local_reachable:
  "adm_reachable demo_adm_local (demo_adm_state demo_adm_local (Local 1))"
  unfolding demo_adm_state_def
  by (rule adm_two_calls_reachable [where sid' = "Local 2"])
     (simp_all add: demo_adm_local_def adm_config_of_def limiter_for_def cap_def semaphore_new_def)

text \<open>The sizing id of the preset \<open>thumb\<close>, register by register.\<close>

lemma thumb_step_1: "crc32_byte 0xFFFFFFFF 0x74 = 0x7A95A557" by code_simp
lemma thumb_step_2: "crc32_byte 0x7A95A557 0x68 = 0xB61CB898" by code_simp
lemma thumb_step_3: "crc32_byte 0xB61CB898 0x75 = 0xDE0D827D" by code_simp
lemma thumb_step_4: "crc32_byte 0xDE0D827D 0x6D = 0x1D691DE6" by code_simp
lemma thumb_step_5: "crc32_byte 0x1D691DE6 0x62 = 0xEAC82E24" by code_simp
lemma thumb_step_6: "crc32_byte 0xEAC82E24 0xFF = 0x11EBC372" by code_simp

lemma demo_thumb_id: "crc_hash ''thumb'' = 0xEE143C8D"
proof -
  have b: "str_bytes ''thumb'' @ [0xFF] = [0x74, 0x68, 0x75, 0x6D, 0x62, 0xFF]"
    by (simp add: str_bytes_def)
  have n: "NOT (0 :: u32) = 0xFFFFFFFF" "NOT (0x11EBC372 :: u32) = 0xEE143C8D"
    by simp_all
  have "crc_hash ''thumb'' = crc32_hash (str_bytes ''thumb'' @ [0xFF])"
    by (simp add: crc_hash_def crc32_hash_def hash_str_def hasher_update_append)
  also have "\<dots> = 0xEE143C8D"
    by (simp only: crc32_hash_def hasher_update_def hasher_finalize_def hasher_default_def
        crc32_update_def b n foldl_Cons foldl_Nil thumb_step_1 thumb_step_2 thumb_step_3
        thumb_step_4 thumb_step_5 thumb_step_6)
  finally show ?thesis .
qed

text \<open>The sizing id of the preset \<open>ikklkacnce\<close>, register by register.\<close>

lemma zero_step_1: "crc32_byte 0xFFFFFFFF 0x69 = 0x1993C98E" by code_simp
lemma zero_step_2: "crc32_byte 0x1993C98E 0x6B = 0xD079853E" by code_simp
lemma zero_step_3: "crc32_byte 0xD079853E 0x6B = 0x1BD1DCFE" by code_simp
lemma zero_step_4: "crc32_byte 0x1BD1DCFE 0x6C = 0x1E1A23B4" by code_simp
lemma zero_step_5: "crc32_byte 0x1E1A23B4 0x6B = 0x1672D566" by code_simp
lemma zero_step_6: "crc32_byte 0x1672D566 0x61 = 0x9E72E776" by code_simp
lemma zero_step_7: "crc32_byte 0x9E72E776 0x63 = 0x6D43960C" by code_simp
lemma zero_step_8: "crc32_byte 0x6D43960C 0x6E = 0xA3D143E2" by code_simp
lemma zero_step_9: "crc32_byte 0xA3D143E2 0x63 = 0x9A1C62F5" by code_simp
lemma zero_step_10: "crc32_byte 0x9A1C62F5 0x65 = 0xF0958F26" by code_simp
lemma zero_step_11: "crc32_byte 0xF0958F26 0xFF = 0xFFFFFFFF" by code_simp

lemma demo_zero_id: "crc_hash ''ikklkacnce'' = 0"
proof -
  have b: "str_bytes ''ikklkacnce'' @ [0xFF] = [0x69, 0x6B, 0x6B, 0x6C, 0x6B, 0x61, 0x63, 0x6E, 0x63, 0x65, 0xFF]"
    by (simp add: str_bytes_def)
  have n: "NOT (0 :: u32) = 0xFFFFFFFF" "NOT (0xFFFFFFFF :: u32) = 0"
    by simp_all
  have "crc_hash ''ikklkacnce'' = crc32_hash (str_bytes ''ikklkacnce'' @ [0xFF])"
    by (simp add: crc_hash_def crc32_hash_def hash_str_def hasher_update_append)
  also have "\<dots> = 0"
    by (simp only: crc32_hash_def hasher_update_def hasher_finalize_def hasher_default_def
        crc32_update_def b n foldl_Cons foldl_Nil zero_step_1 zero_step_2 zero_step_3 zero_step_4
        zero_step_5 zero_step_6 zero_step_7 zero_step_8 zero_step_9 zero_step_10 zero_step_11)
  finally show ?thesis .
qed

lemma demo_world_inv: "world_inv (bucket_id demo_ctl) mem_contents demo_world"
  by (simp add: demo_defs world_inv_def cache_backend_def the_cache_def cache_ops_defs cache_agrees_def)

section \<open>Witnesses\<close>

theorem caching_fetch_reads_storage_witness:
  "storage_contract mem_backend mem_contents \<and> world_inv 1 mem_contents demo_world \<and>
   (\<exists>w'. caching_fetch demo_ctl ''ab'' Png 0 demo_world = (Inr (Some [7]), w') \<and>
     Some [7] = mem_contents (storage_state demo_world) (1, ''ab'', Png, 0) \<and>
     world_inv 1 mem_contents w')"
proof -
  note contract = demo_contract and inv = demo_world_inv
  obtain w' where run: "caching_fetch demo_ctl ''ab'' Png 0 demo_world = (Inr (Some [7]), w')"
    by (simp add: demo_defs run_defs)
  from Controller.caching_fetch_reads_storage [OF contract inv run] have
    "Some [7] = mem_contents (storage_state demo_world) (bucket_id demo_ctl, ''ab'', Png, 0) \<and>
     world_inv (bucket_id demo_ctl) mem_contents w'"
    by simp
  with contract inv run show ?thesis
    by (auto simp: demo_ctl_def)
qed

theorem concurrent_upload_no_cancellation_witness:
  "\<exists>w'. concurrent_upload demo_ctl ''ab'' demo_entries demo_failing_world
          = (Inl (StorageError ''write failed''), w') \<and>
     mem_contents (storage_state w') =
       (mem_contents (storage_state demo_failing_world))((1, ''ab'', Png, 5) \<mapsto> [2])"
proof -
  obtain w' where run: "concurrent_upload demo_ctl ''ab'' demo_entries demo_failing_world
      = (Inl (StorageError ''write failed''), w')"
    by (simp add: demo_defs run_defs fanout_task_def)
  have fails: "store_fails (storage demo_ctl) (\<lambda>st key. key \<in> set (failing st))"
    by (simp add: demo_ctl_def mem_backend_store_fails)
  from Controller.concurrent_upload_no_cancellation [OF demo_contract fails run]
  have "mem_contents (storage_state w') = store_all 1 ''ab''
      (filter (\<lambda>e. entry_key 1 ''ab'' e \<notin> set (failing (storage_state demo_failing_world))) demo_entries)
      (mem_contents (storage_state demo_failing_world))"
    by (simp add: demo_ctl_def)
  then have "mem_contents (storage_state w') =
      (mem_contents (storage_state demo_failing_world))((1, ''ab'', Png, 5) \<mapsto> [2])"
    by (simp add: demo_entries_def demo_failing_world_def entry_key_def store_all_def)
  with run show ?thesis by blast
qed

theorem delete_purges_and_invalidates_witness:
  "storage_contract (storage demo_ctl) mem_contents \<and> world_inv 1 mem_contents demo_cached_world \<and>
   cache_backend demo_cached_world \<noteq> Some GlobalCache \<and>
   (\<exists>w'. delete_body demo_ctl ''ab'' demo_cached_world = (Inr (), w') \<and>
      world_inv 1 mem_contents w' \<and>
      mem_contents (storage_state w') = purge (mem_contents (storage_state demo_cached_world)) 1 ''ab'' \<and>
      (\<forall>c s k. bucket_cache w' = Some c \<longrightarrow> cache_get (cache_key 1 s ''ab'' k) c = None))"
proof -
  have inv: "world_inv (bucket_id demo_ctl) mem_contents demo_cached_world"
    by (auto simp: demo_defs world_inv_def cache_backend_def the_cache_def cache_ops_defs
        cache_agrees_def cache_key_eq_iff)
  have cb: "cache_backend demo_cached_world \<noteq> Some GlobalCache"
    by (simp add: demo_defs cache_backend_def)
  obtain w' where run: "delete_body demo_ctl ''ab'' demo_cached_world = (Inr (), w')"
    by (simp add: demo_defs delete_body_def storage_op_def map_cache_def)
  from Controller.delete_purges_and_invalidates [OF demo_contract inv cb run] inv cb run demo_contract
  show ?thesis by (auto simp: demo_ctl_def)
qed

theorem delete_leaves_global_cache_stale_witness:
  "\<exists>w'. delete_body demo_ctl ''ab'' demo_global_world = (Inr (), w') \<and>
     mem_contents (storage_state w') (1, ''ab'', Png, 0) = None \<and>
     fst (caching_fetch demo_ctl ''ab'' Png 0 w') = Inr (Some [7])"
proof -
  obtain w' where run: "delete_body demo_ctl ''ab'' demo_global_world = (Inr (), w')"
    and gone: "mem_contents (storage_state w') (1, ''ab'', Png, 0) = None"
    by (simp add: demo_defs delete_body_def storage_op_def map_cache_def of_image_def)
  have "bucket_cache demo_global_world = None"
    and "global_cache demo_global_world = Some [cache_key 1 0 ''ab'' Png \<mapsto> [7]]"
    and "cache_get (cache_key (bucket_id demo_ctl) 0 ''ab'' Png) [cache_key 1 0 ''ab'' Png \<mapsto> [7]] = Some [7]"
    by (simp_all add: demo_defs cache_get_def)
  from Controller.delete_leaves_global_cache_stale [OF this run] run gone show ?thesis
    by blast
qed

theorem global_limiter_takes_precedence_witness:
  "global_limiter demo_ctl_global = Some (semaphore_new 1) \<and>
   limiter demo_ctl_global = Some (semaphore_new 0) \<and>
   with_permit (demo_ctl_global\<lparr>limiter := None\<rparr>) (delete_body demo_ctl ''ab'') demo_world =
     with_permit demo_ctl_global (delete_body demo_ctl ''ab'') demo_world \<and>
   with_permit demo_ctl_global (delete_body demo_ctl ''ab'') demo_world \<noteq> None"
proof -
  have g: "global_limiter demo_ctl_global = Some (semaphore_new 1)"
    by (simp add: demo_ctl_global_def)
  from Controller.global_limiter_takes_precedence [OF g, of None "delete_body demo_ctl ''ab''" demo_world] g
  show ?thesis by (simp add: demo_ctl_global_def semaphore_new_def)
qed

theorem zero_max_concurrency_blocks_witness:
  "max_concurrency (demo_config\<lparr>max_concurrency := Some 0\<rparr>) = Some 0 \<and>
   upload id (bucket_controller_new 1 None (demo_config\<lparr>max_concurrency := Some 0\<rparr>) (pipeline demo_ctl) mem_backend)
     Png [1, 2] demo_world = None \<and>
   fetch (bucket_controller_new 1 None (demo_config\<lparr>max_concurrency := Some 0\<rparr>) (pipeline demo_ctl) mem_backend)
     ''ab'' Png None None demo_world = None \<and>
   delete (bucket_controller_new 1 None (demo_config\<lparr>max_concurrency := Some 0\<rparr>) (pipeline demo_ctl) mem_backend)
     ''ab'' demo_world = None"
proof -
  have z: "max_concurrency (demo_config\<lparr>max_concurrency := Some 0\<rparr>) = Some 0" by simp
  from Controller.zero_max_concurrency_blocks [OF z] z show ?thesis by blast
qed

theorem aot_fetch_serves_stored_variant_witness:
  "mode (config demo_ctl) = Aot \<and>
   (\<exists>w'. fetch_body demo_ctl ''ab'' Png None None demo_world =
        (Inr (Some \<lparr>entry_data = [7], entry_kind = Png, entry_sizing_id = 0\<rparr>), w') \<and>
      hook_log w' = hook_log demo_world \<and> world_inv 1 mem_contents w')"
proof -
  have aot: "mode (config demo_ctl) = Aot" by (simp add: demo_defs)
  obtain r w' where run: "fetch_body demo_ctl ''ab'' Png None None demo_world = (Inr r, w')"
    by (simp add: demo_defs run_defs)
  from Controller.aot_fetch_serves_stored_variant [OF demo_contract demo_world_inv aot run]
  have "hook_log w' = hook_log demo_world" "world_inv 1 mem_contents w'"
    and "r = Some \<lparr>entry_data = [7], entry_kind = Png, entry_sizing_id = 0\<rparr>"
    by (simp_all add: demo_defs resolve_sizing_id_def)
  with aot run show ?thesis by auto
qed

theorem jit_fetch_hit_invokes_hook_witness:
  "mode (config demo_ctl_jit) = Jit \<and>
   (\<exists>w1. caching_fetch demo_ctl_jit ''ab'' Png (resolve_sizing_id (config demo_ctl_jit) None) demo_world
           = (Inr (Some [7]), w1)) \<and>
   hook_log (snd (fetch_body demo_ctl_jit ''ab'' Png None None demo_world)) = [OnFetch]"
proof -
  have jit: "mode (config demo_ctl_jit) = Jit" by (simp add: demo_defs)
  obtain w1 where hit: "caching_fetch demo_ctl_jit ''ab'' Png (resolve_sizing_id (config demo_ctl_jit) None)
      demo_world = (Inr (Some [7]), w1)"
    by (simp add: demo_defs run_defs)
  from Controller.jit_fetch_hit_invokes_hook [OF jit hit, of None] jit hit show ?thesis
    by (auto simp: demo_world_def)
qed

theorem realtime_fetch_without_original_not_found_witness:
  "mode (config demo_ctl_realtime) = Realtime \<and>
   mem_contents (storage_state demo_world) (1, ''cd'', Png, 0) = None \<and>
   (\<exists>w'. fetch_body demo_ctl_realtime ''cd'' Webp (Some ''thumb'') (Some (8, 8)) demo_world = (Inr None, w') \<and>
      hook_log w' = [])"
proof -
  have contract: "storage_contract (storage demo_ctl_realtime) mem_contents"
    by (simp add: demo_ctl_realtime_def demo_ctl_def mem_backend_contract)
  have reliable: "fetch_reliable (storage demo_ctl_realtime)"
    by (simp add: demo_ctl_realtime_def demo_ctl_def mem_backend_reliable)
  have inv: "world_inv (bucket_id demo_ctl_realtime) mem_contents demo_world"
    using demo_world_inv by (simp add: demo_ctl_realtime_def demo_ctl_def)
  have rt: "mode (config demo_ctl_realtime) = Realtime" by (simp add: demo_defs)
  have absent: "mem_contents (storage_state demo_world)
      (bucket_id demo_ctl_realtime, ''cd'', original_image_store_format (formats (config demo_ctl_realtime)), 0) = None"
    by (simp add: demo_defs)
  from Controller.realtime_fetch_without_original_not_found [OF contract reliable inv rt absent,
      of Webp "Some ''thumb''" "Some (8, 8)"] rt absent
  show ?thesis by (simp add: demo_defs)
qed

section \<open>Across components: upload, then fetch\<close>

text \<open>
  C13: in ahead-of-time mode, once an upload has succeeded, a fetch of any entry the
  upload hook produced (by the reported image id, the entry's kind and a preset
  resolving to its sizing id) is admitted whenever the upload was, returns that
  entry's bytes, kind and sizing id exactly, and invokes no pipeline hook. It needs a
  backend that meets the storage contract and whose reads do not fail, a bucket that
  reads its own cache (or none), and no other entry of the upload under the same
  variant key.
\<close>

theorem aot_upload_then_fetch:
  assumes contract: "storage_contract (storage ctl) \<alpha>" and reliable: "fetch_reliable (storage ctl)"
    and inv: "world_inv (bucket_id ctl) \<alpha> w" and cb: "cache_backend w \<noteq> Some GlobalCache"
    and aot: "mode (config ctl) = Aot"
    and admit: "get_optional_permit (global_limiter ctl) (limiter ctl) = Some (Inr pm)"
    and up: "on_upload (pipeline ctl) kind data = Inr res"
    and uploaded: "upload D ctl kind data w = Some (Inr info, w1)"
    and e: "e \<in> set (to_store res)"
    and uniq: "\<forall>e' \<in> set (to_store res).
       entry_key (bucket_id ctl) (info_image_id info) e' = entry_key (bucket_id ctl) (info_image_id info) e \<longrightarrow> e' = e"
    and sz: "resolve_sizing_id (config ctl) p = entry_sizing_id e"
  shows "\<exists>w2. fetch ctl (info_image_id info) (entry_kind e) p c w1 = Some (Inr (Some e), w2) \<and>
    hook_log w2 = hook_log w1"
proof -
  let ?b = "bucket_id ctl" and ?i = "info_image_id info"
  from uploaded admit have ub: "upload_body D ctl kind data w = (Inr info, w1)"
    by (simp add: upload_def with_permit_admitted)
  note ok = upload_body_ok [OF contract up ub]
  then have i: "?i = sha256_hash D data"
    and M1: "\<alpha> (storage_state w1) = store_all ?b ?i (to_store res) (\<alpha> (storage_state w))"
    and inv1: "world_inv ?b \<alpha> w1"
    using inv cb by auto
  have stored: "\<alpha> (storage_state w1) (entry_key ?b ?i e) = Some (entry_data e)"
    using M1 store_all_lookup [OF e uniq] by simp
  obtain r w2 where fb: "fetch_body ctl ?i (entry_kind e) p c w1 = (Inr r, w2)"
    using aot_fetch_body_ok [OF aot reliable] by blast
  from aot_fetch_correct [OF contract inv1 aot fb] stored sz
  have "hook_log w2 = hook_log w1" and "r = Some e"
    by (simp_all add: entry_key_def)
  with fb admit show ?thesis
    by (simp add: fetch_def with_permit_admitted)
qed

theorem aot_upload_then_fetch_witness:
  "\<exists>info w1 w2. upload id demo_ctl Png [1, 2] demo_world = Some (Inr info, w1) \<and>
     fetch demo_ctl (info_image_id info) Png None None w1 =
       Some (Inr (Some \<lparr>entry_data = [1, 2], entry_kind = Png, entry_sizing_id = 0\<rparr>), w2) \<and>
     hook_log w2 = hook_log w1"
proof -
  let ?e = "\<lparr>entry_data = [1, 2], entry_kind = Png, entry_sizing_id = 0\<rparr>"
  have admit: "get_optional_permit (global_limiter demo_ctl) (limiter demo_ctl) = Some (Inr None)"
    by (simp add: demo_defs get_optional_permit_def)
  let ?es = "map (\<lambda>k. \<lparr>entry_data = [1, 2], entry_kind = k, entry_sizing_id = 0\<rparr>) variants"
  have up: "on_upload (pipeline demo_ctl) Png [1, 2] = Inr \<lparr>to_store = ?es, response = None\<rparr>"
    by (simp add: demo_defs aot_pipeline_def aot_sizings_def)
  have cb: "cache_backend demo_world \<noteq> Some GlobalCache"
    by (simp add: demo_defs cache_backend_def)
  have reliable: "fetch_reliable (storage demo_ctl)"
    by (simp add: demo_ctl_def mem_backend_reliable)
  have aot: "mode (config demo_ctl) = Aot" by (simp add: demo_defs)
  obtain info w1 where uploaded: "upload id demo_ctl Png [1, 2] demo_world = Some (Inr info, w1)"
    by (simp add: demo_defs run_defs aot_pipeline_def aot_sizings_def fanout_task_def variants_def)
  have sz: "resolve_sizing_id (config demo_ctl) None = entry_sizing_id ?e"
    by (simp add: demo_defs resolve_sizing_id_def)
  have e: "?e \<in> set (to_store \<lparr>to_store = ?es, response = None\<rparr>)" by (simp add: variants_def)
  have uniq: "\<forall>e' \<in> set (to_store \<lparr>to_store = ?es, response = None\<rparr>).
      entry_key (bucket_id demo_ctl) (info_image_id info) e' = entry_key (bucket_id demo_ctl) (info_image_id info) ?e
      \<longrightarrow> e' = ?e"
    by (auto simp: variants_def entry_key_def)
  from aot_upload_then_fetch [OF demo_contract reliable demo_world_inv cb aot admit up uploaded e uniq sz]
  show ?thesis using uploaded by auto
qed

theorem upload_reports_and_stores_witness:
  "\<exists>info w'. upload_body id demo_ctl Png [1, 2] demo_world = (Inr info, w') \<and>
     info_image_id info = sha256_hash id [1, 2] \<and> info_checksum info = crc32_hash [1, 2] \<and>
     info_images info = [0, 0, 0, 0] \<and>
     mem_contents (storage_state w') (1, sha256_hash id [1, 2], Webp, 0) = Some [1, 2] \<and>
     hook_log w' = [OnUpload]"
proof -
  let ?es = "map (\<lambda>k. \<lparr>entry_data = [1, 2], entry_kind = k, entry_sizing_id = 0\<rparr>) variants"
  have up: "on_upload (pipeline demo_ctl) Png [1, 2] = Inr \<lparr>to_store = ?es, response = None\<rparr>"
    by (simp add: demo_defs aot_pipeline_def aot_sizings_def)
  obtain info w' where run: "upload_body id demo_ctl Png [1, 2] demo_world = (Inr info, w')"
    by (simp add: demo_defs run_defs aot_pipeline_def aot_sizings_def fanout_task_def variants_def)
  from Controller.upload_reports_and_stores [OF demo_contract up run] run show ?thesis
    by (auto simp: demo_defs store_all_def entry_key_def variants_def)
qed


theorem global_limiter_bounds_all_calls_witness:
  "length (filter holding (calls (demo_adm_state demo_adm_global Global))) = 1 \<and>
   length (filter holding (calls (demo_adm_state demo_adm_global Global))) \<le> 1"
  using Admission.global_limiter_bounds_all_calls [OF demo_adm_global_reachable, of 1]
  by (simp add: demo_adm_state_def demo_adm_global_def adm_config_of_def semaphore_new_def
      holding_def)

theorem local_limiter_bounds_bucket_calls_witness:
  "length (filter (\<lambda>c. holding c \<and> call_bucket c = 1)
     (calls (demo_adm_state demo_adm_local (Local 1)))) \<le> 1"
  using Admission.local_limiter_bounds_bucket_calls [OF demo_adm_local_reachable, of 1 1]
  by (simp add: demo_adm_local_def adm_config_of_def semaphore_new_def)

theorem exhausted_semaphore_has_holder_witness:
  "avail (demo_adm_state demo_adm_global Global) Global = 0 \<and>
   (\<exists>c \<in> set (calls (demo_adm_state demo_adm_global Global)). holds Global c)"
proof -
  have a: "avail (demo_adm_state demo_adm_global Global) Global = 0"
    and c: "0 < cap demo_adm_global Global"
    by (simp_all add: demo_adm_state_def demo_adm_global_def adm_config_of_def
        semaphore_new_def cap_def)
  show ?thesis
    using a Admission.exhausted_semaphore_has_holder [OF demo_adm_global_reachable a c] by simp
qed


theorem gcp_fetch_after_store_witness:
  "gcp_store 1 ''ab'' Jpeg 0 [8] demo_gcp = (Inr (), snd (gcp_store 1 ''ab'' Jpeg 0 [8] demo_gcp)) \<and>
   gcp_fetch 1 ''ab'' Jpeg 0 (snd (gcp_store 1 ''ab'' Jpeg 0 [8] demo_gcp)) =
     (Inr (Some [8]), snd (gcp_store 1 ''ab'' Jpeg 0 [8] demo_gcp))"
proof -
  have st: "gcp_store 1 ''ab'' Jpeg 0 [8] demo_gcp = (Inr (), snd (gcp_store 1 ''ab'' Jpeg 0 [8] demo_gcp))"
    by (simp add: gcp_store_def gcs_create_def demo_gcp_def Let_def)
  show ?thesis using st Gcp.gcp_fetch_after_store [OF st] by simp
qed

theorem gcp_missing_variant_is_error_witness:
  "gcp_contents demo_gcp (1, ''ab'', Jpeg, 0) = None \<and> isl (fst (gcp_fetch 1 ''ab'' Jpeg 0 demo_gcp))"
proof -
  have m: "gcp_contents demo_gcp (1, ''ab'', Jpeg, 0) = None"
    by (simp add: gcp_contents_def demo_gcp_def format_path_injective)
  show ?thesis using m Gcp.gcp_missing_variant_is_error [OF m] by simp
qed

theorem gcp_delete_fails_on_missing_variant_witness:
  "gcp_contents demo_gcp (1, ''ab'', Png, 0) = Some [7] \<and>
   gcp_contents demo_gcp (1, ''ab'', Jpeg, 0) = None \<and>
   isl (fst (gcp_delete 1 ''ab'' demo_gcp))"
proof -
  have r: "gcp_registry demo_gcp = Some [1 \<mapsto> demo_config]" by (simp add: demo_gcp_def)
  have s: "(0::u32) \<in> set (sizing_preset_ids demo_config)" by (simp add: sizing_preset_ids_def)
  have m: "gcp_contents demo_gcp (1, ''ab'', Jpeg, 0) = None"
    and p: "gcp_contents demo_gcp (1, ''ab'', Png, 0) = Some [7]"
    by (simp_all add: gcp_contents_def demo_gcp_def format_path_injective)
  show ?thesis
    using p m Gcp.gcp_delete_fails_on_missing_variant [OF r _ s m] by simp
qed

theorem gcp_delete_purges_every_combination_witness:
  "\<exists>st'. gcp_delete 1 ''ab'' demo_gcp_full = (Inr [(0, Png), (0, Jpeg), (0, Gif), (0, Webp)], st') \<and>
     gcp_contents st' (1, ''ab'', Png, 0) = None \<and> gcp_contents st' (1, ''cd'', Png, 0) = None"
proof -
  have r: "gcp_registry demo_gcp_full = Some [1 \<mapsto> demo_config]"
    by (simp add: demo_gcp_full_def demo_gcp_def)
  have d: "distinct (sizing_preset_ids demo_config)" by (simp add: sizing_preset_ids_def demo_config_def)
  have e: "\<forall>s \<in> set (sizing_preset_ids demo_config). \<forall>k. gcp_contents demo_gcp_full (1, ''ab'', k, s) \<noteq> None"
  proof (intro ballI allI)
    fix s k assume "s \<in> set (sizing_preset_ids demo_config)"
    then show "gcp_contents demo_gcp_full (1, ''ab'', k, s) \<noteq> None"
      by (cases k) (simp_all add: sizing_preset_ids_def demo_config_def gcp_contents_def
          demo_gcp_full_def format_path_injective)
  qed
  obtain st' where
    del: "gcp_delete 1 ''ab'' demo_gcp_full = (Inr (List.product (sizing_preset_ids demo_config) variants), st')"
    and c: "\<forall>b' i' k s. gcp_contents st' (b', i', k, s) =
       (if b' = 1 \<and> i' = ''ab'' \<and> s \<in> set (sizing_preset_ids demo_config) then None
        else gcp_contents demo_gcp_full (b', i', k, s))"
    using Gcp.gcp_delete_purges_every_combination [OF r _ d e] by auto
  have "List.product (sizing_preset_ids demo_config) variants = [(0, Png), (0, Jpeg), (0, Gif), (0, Webp)]"
    by (simp add: sizing_preset_ids_def demo_config_def variants_def)
  moreover have "gcp_contents st' (1, ''ab'', Png, 0) = None" using c by (simp add: sizing_preset_ids_def)
  moreover have "gcp_contents st' (1, ''cd'', Png, 0) = None"
    using c by (simp add: gcp_contents_def demo_gcp_full_def demo_gcp_def format_path_injective)
  ultimately show ?thesis using del by auto
qed


theorem waiting_call_admitted_witness:
  "avail (demo_adm_state demo_adm_global Global) Global = 0 \<and>
   call_phase (calls (demo_adm_state demo_adm_global Global) ! 1) = Waiting \<and>
   (\<exists>t. (adm_step demo_adm_global)\<^sup>*\<^sup>* (demo_adm_state demo_adm_global Global) t \<and>
        call_phase (calls t ! 1) = Holding (Some Global))"
proof -
  have l: "1 < length (calls (demo_adm_state demo_adm_global Global))"
    and w: "call_phase (calls (demo_adm_state demo_adm_global Global) ! 1) = Waiting"
    and a: "avail (demo_adm_state demo_adm_global Global) Global = 0"
    by (simp_all add: demo_adm_state_def demo_adm_global_def adm_config_of_def semaphore_new_def cap_def)
  have f: "limiter_for demo_adm_global (call_bucket (calls (demo_adm_state demo_adm_global Global) ! 1))
      = Some Global"
    and c: "0 < cap demo_adm_global Global"
    by (simp_all add: demo_adm_state_def demo_adm_global_def adm_config_of_def semaphore_new_def
        cap_def limiter_for_def)
  show ?thesis
    using a w Admission.waiting_call_admitted [OF demo_adm_global_reachable l w f c] by simp
qed


section \<open>Across components: delete, then fetch\<close>

text \<open>
  C27: when the bucket reads its own cache (or none), once a delete of an image has
  succeeded, a fetch of any variant of it, in any mode, with any preset, finds
  nothing: the bucket's cache no longer serves it and the storage no longer holds it.
\<close>

theorem delete_then_fetch_not_found:
  assumes contract: "storage_contract (storage ctl) \<alpha>"
    and inv: "world_inv (bucket_id ctl) \<alpha> w" and cb: "cache_backend w \<noteq> Some GlobalCache"
    and deleted: "delete ctl i w = Some (Inr (), w1)"
    and fetched: "fetch ctl i k p c w1 = Some (Inr r, w2)"
  shows "r = None"
proof -
  have db: "delete_body ctl i w = (Inr (), w1)"
    using deleted by (simp add: delete_def with_permit_Inr)
  from delete_body_correct [OF contract inv cb db]
  have inv1: "world_inv (bucket_id ctl) \<alpha> w1"
    and M1: "\<alpha> (storage_state w1) = purge (\<alpha> (storage_state w)) (bucket_id ctl) i" by simp_all
  have fb: "fetch_body ctl i k p c w1 = (Inr r, w2)"
    using fetched by (simp add: fetch_def with_permit_Inr)
  show ?thesis
    using fetch_body_absent [OF contract inv1 _ fb] M1 by (simp add: purge_def)
qed

theorem delete_then_fetch_not_found_witness:
  "(\<exists>w0. fetch demo_ctl ''ab'' Png None None demo_world =
      Some (Inr (Some \<lparr>entry_data = [7], entry_kind = Png, entry_sizing_id = 0\<rparr>), w0)) \<and>
   (\<exists>w1 w2. delete demo_ctl ''ab'' demo_world = Some (Inr (), w1) \<and>
      fetch demo_ctl ''ab'' Png None None w1 = Some (Inr None, w2))"
proof -
  have before: "\<exists>w0. fetch demo_ctl ''ab'' Png None None demo_world =
      Some (Inr (Some \<lparr>entry_data = [7], entry_kind = Png, entry_sizing_id = 0\<rparr>), w0)"
    by (simp add: demo_defs run_defs)
  obtain w1 where del: "delete demo_ctl ''ab'' demo_world = Some (Inr (), w1)"
    by (simp add: demo_defs run_defs of_image_def)
  have aot: "mode (config demo_ctl) = Aot" by (simp add: demo_defs)
  have rel: "fetch_reliable (storage demo_ctl)" by (simp add: demo_ctl_def mem_backend_reliable)
  obtain r w2 where "fetch_body demo_ctl ''ab'' Png None None w1 = (Inr r, w2)"
    using aot_fetch_body_ok [OF aot rel] by blast
  then have f: "fetch demo_ctl ''ab'' Png None None w1 = Some (Inr r, w2)"
    by (simp add: fetch_def with_permit_def get_optional_permit_def demo_ctl_def)
  have cb: "cache_backend demo_world \<noteq> Some GlobalCache" by (simp add: demo_defs cache_backend_def)
  from delete_then_fetch_not_found [OF demo_contract demo_world_inv cb del f] f del before
  show ?thesis by blast
qed

theorem jit_fetch_miss_derives_variant_witness:
  "\<exists>w'. fetch_body demo_ctl_jit ''ab'' Jpeg None None demo_world =
       (Inr (Some \<lparr>entry_data = [7], entry_kind = Jpeg, entry_sizing_id = 0\<rparr>), w') \<and>
     hook_log w' = [OnFetch] \<and>
     mem_contents (storage_state w') = mem_contents (storage_state demo_world)"
proof -
  let ?e = "\<lparr>entry_data = [7], entry_kind = Jpeg, entry_sizing_id = 0\<rparr>"
  let ?res = "\<lparr>to_store = [], response = Some ?e\<rparr>"
  have contract: "storage_contract (storage demo_ctl_jit) mem_contents"
    by (simp add: demo_ctl_jit_def demo_ctl_def mem_backend_contract)
  have inv: "world_inv (bucket_id demo_ctl_jit) mem_contents demo_world"
    using demo_world_inv by (simp add: demo_ctl_jit_def)
  have cb: "cache_backend demo_world \<noteq> Some GlobalCache" by (simp add: demo_defs cache_backend_def)
  have jit: "mode (config demo_ctl_jit) = Jit" by (simp add: demo_defs)
  have absent: "mem_contents (storage_state demo_world)
      (bucket_id demo_ctl_jit, ''ab'', Jpeg, resolve_sizing_id (config demo_ctl_jit) None) = None"
    by (simp add: demo_defs resolve_sizing_id_def)
  have orig: "mem_contents (storage_state demo_world) (bucket_id demo_ctl_jit, ''ab'',
      original_image_store_format (formats (config demo_ctl_jit)), 0) = Some [7]"
    by (simp add: demo_defs)
  have hook: "on_fetch (pipeline demo_ctl_jit) Jpeg (original_image_store_format (formats (config demo_ctl_jit)))
      [7] (resolve_sizing_id (config demo_ctl_jit) None) None = Inr ?res"
    by (simp add: demo_defs aot_pipeline_def resolve_sizing_id_def)
  obtain r w' where run: "fetch_body demo_ctl_jit ''ab'' Jpeg None None demo_world = (Inr r, w')"
    by (simp add: demo_defs run_defs aot_pipeline_def)
  have keys: "distinct (map (entry_key (bucket_id demo_ctl_jit) ''ab'') (to_store ?res))" by simp
  from Controller.jit_fetch_miss_derives_variant [OF contract inv cb jit absent orig hook keys run]
  have "r = Some ?e" "hook_log w' = [OnFetch]"
    "mem_contents (storage_state w') = mem_contents (storage_state demo_world)"
    by (simp_all add: demo_world_def store_all_def)
  with run show ?thesis by blast
qed


theorem connect_builds_configured_backend_witness:
  "\<exists>h env'. connect demo_io (GCPCloudStorage ''images-a'' ''sa-a.json'') demo_gcp_env = (Inr h, env') \<and>
     built_from h (GCPCloudStorage ''images-a'' ''sa-a.json'')"
proof -
  obtain h env' where c: "connect demo_io (GCPCloudStorage ''images-a'' ''sa-a.json'') demo_gcp_env = (Inr h, env')"
    by (simp add: connect_def gcp_new_def gcs_bucket_read_def gcs_credentials_def demo_gcp_env_def Let_def)
  with Backends.connect_builds_configured_backend [of demo_io "GCPCloudStorage ''images-a'' ''sa-a.json''"
      demo_gcp_env h env'] show ?thesis by blast
qed

theorem gcp_first_account_wins_witness:
  "\<exists>env1. gcp_new ''images-a'' ''sa-a.json'' demo_gcp_env = (Inr \<lparr>handle_bucket_name = ''images-a''\<rparr>, env1) \<and>
     fst (gcp_new ''images-b'' ''sa-b.json'' env1) = Inl (StorageError ''bucket not found'')"
proof -
  have fresh: "service_account demo_gcp_env = None" by (simp add: demo_gcp_env_def)
  obtain env1 where first: "gcp_new ''images-a'' ''sa-a.json'' demo_gcp_env =
      (Inr \<lparr>handle_bucket_name = ''images-a''\<rparr>, env1)"
    by (simp add: gcp_new_def gcs_bucket_read_def gcs_credentials_def demo_gcp_env_def Let_def)
  from Backends.gcp_first_account_wins [OF fresh first, of "''images-b''" "''sa-b.json''"] first
  show ?thesis by (simp add: demo_gcp_env_def)
qed


theorem concurrent_upload_order_independent_witness:
  "\<exists>w1 w1'. concurrent_upload demo_ctl ''ab'' demo_entries demo_failing_world
         = (Inl (StorageError ''write failed''), w1) \<and>
     (\<exists>r'. concurrent_upload demo_ctl ''ab'' (rev demo_entries) demo_failing_world = (r', w1') \<and> isl r') \<and>
     mem_contents (storage_state w1') = mem_contents (storage_state w1)"
proof -
  obtain w1 where run: "concurrent_upload demo_ctl ''ab'' demo_entries demo_failing_world
      = (Inl (StorageError ''write failed''), w1)"
    by (simp add: demo_defs run_defs fanout_task_def)
  obtain r' w1' where run': "concurrent_upload demo_ctl ''ab'' (rev demo_entries) demo_failing_world = (r', w1')"
    by fastforce
  have fails: "store_fails (storage demo_ctl) (\<lambda>st key. key \<in> set (failing st))"
    by (simp add: demo_ctl_def mem_backend_store_fails)
  have perm: "mset (rev demo_entries) = mset demo_entries" by simp
  have keys: "distinct (map (entry_key (bucket_id demo_ctl) ''ab'') demo_entries)"
    by (simp add: demo_entries_def demo_ctl_def entry_key_def)
  from Controller.concurrent_upload_order_independent [OF demo_contract fails perm keys run run'] run run'
  show ?thesis by auto
qed




theorem gcp_empty_variant_reads_as_absent_witness:
  "format_path 1 0 ''ab'' Jpeg \<notin> set (gcs_failing demo_gcp) \<and>
   (\<exists>st'. gcp_store 1 ''ab'' Jpeg 0 [] demo_gcp = (Inr (), st') \<and>
      gcp_contents st' (1, ''ab'', Jpeg, 0) = Some [] \<and> gcp_fetch 1 ''ab'' Jpeg 0 st' = (Inr None, st'))"
proof -
  have nf: "format_path 1 0 ''ab'' Jpeg \<notin> set (gcs_failing demo_gcp)" by (simp add: demo_gcp_def)
  from Gcp.gcp_empty_variant_reads_as_absent [OF nf] nf show ?thesis by simp
qed

text \<open>The two entries of \<open>demo_entries\<close> written in one order and inserted in the other.\<close>

lemma demo_schedule_complete:
  "fanout_complete (fst (run_schedule demo_ctl ''ab'' demo_entries
     [StoreStep 0, StoreStep 1, InsertStep 1, InsertStep 0] demo_world))"
  "fanout_complete (fst (run_schedule demo_ctl ''ab'' demo_entries
     [StoreStep 0, StoreStep 1, InsertStep 1, InsertStep 0] demo_failing_world))"
  by (simp_all add: run_schedule_def demo_defs task_store_def task_insert_def storage_op_def
      map_cache_def fanout_complete_def)

theorem fanout_schedule_keeps_agreement_witness:
  "storage_contract (storage demo_ctl) mem_contents \<and> world_inv 1 mem_contents demo_world \<and>
   cache_backend demo_world \<noteq> Some GlobalCache \<and> distinct (map (entry_key 1 ''ab'') demo_entries) \<and>
   (\<exists>ts w'. run_schedule demo_ctl ''ab'' demo_entries [StoreStep 0, StoreStep 1, InsertStep 1, InsertStep 0]
        demo_world = (ts, w') \<and> fanout_complete ts \<and> world_inv 1 mem_contents w')"
proof -
  have cb: "cache_backend demo_world \<noteq> Some GlobalCache" by (simp add: demo_defs cache_backend_def)
  have keys: "distinct (map (entry_key (bucket_id demo_ctl) ''ab'') demo_entries)"
    by (simp add: demo_entries_def demo_ctl_def entry_key_def)
  obtain ts w' where run: "run_schedule demo_ctl ''ab'' demo_entries [StoreStep 0, StoreStep 1, InsertStep 1,
      InsertStep 0] demo_world = (ts, w')" by fastforce
  with demo_schedule_complete(1) have c: "fanout_complete ts" by simp
  from Fanout.fanout_schedule_keeps_agreement [OF demo_contract demo_world_inv cb keys run c]
  have "world_inv 1 mem_contents w'" by (simp add: demo_ctl_def)
  with demo_contract demo_world_inv cb keys run c show ?thesis by (auto simp: demo_ctl_def)
qed

theorem fanout_schedule_equals_serial_witness:
  "\<exists>ts w'. run_schedule demo_ctl ''ab'' demo_entries [StoreStep 0, StoreStep 1, InsertStep 1, InsertStep 0]
        demo_failing_world = (ts, w') \<and> fanout_complete ts \<and>
     map (\<lambda>t. isl (the (task_done t))) ts = [True, False] \<and>
     mem_contents (storage_state w') =
       mem_contents (storage_state (snd (run_tasks demo_ctl ''ab'' demo_entries demo_failing_world))) \<and>
     bucket_cache w' = bucket_cache (snd (run_tasks demo_ctl ''ab'' demo_entries demo_failing_world))"
proof -
  have fails: "store_fails (storage demo_ctl) (\<lambda>st key. key \<in> set (failing st))"
    by (simp add: demo_ctl_def mem_backend_store_fails)
  have keys: "distinct (map (entry_key (bucket_id demo_ctl) ''ab'') demo_entries)"
    by (simp add: demo_entries_def demo_ctl_def entry_key_def)
  obtain ts w' where run: "run_schedule demo_ctl ''ab'' demo_entries [StoreStep 0, StoreStep 1, InsertStep 1,
      InsertStep 0] demo_failing_world = (ts, w')" by fastforce
  with demo_schedule_complete(2) have c: "fanout_complete ts" by simp
  have "map isl (fst (run_tasks demo_ctl ''ab'' demo_entries demo_failing_world)) = [True, False]"
    by (simp add: demo_defs run_defs fanout_task_def)
  with Fanout.fanout_schedule_equals_serial [OF demo_contract fails keys run c] run c show ?thesis
    by auto
qed

theorem fanout_shared_key_breaks_agreement_witness:
  "\<exists>ts w'. run_schedule demo_ctl ''ab''
       [\<lparr>entry_data = [1], entry_kind = Png, entry_sizing_id = 3\<rparr>,
        \<lparr>entry_data = [2], entry_kind = Png, entry_sizing_id = 3\<rparr>]
       [StoreStep 0, StoreStep 1, InsertStep 1, InsertStep 0] demo_world = (ts, w') \<and>
     fanout_complete ts \<and> \<not> world_inv 1 mem_contents w'"
proof -
  have fails: "store_fails (storage demo_ctl) (\<lambda>st key. key \<in> set (failing st))"
    by (simp add: demo_ctl_def mem_backend_store_fails)
  have ok: "\<forall>K. \<not> K \<in> set (failing (storage_state demo_world))" by (simp add: demo_world_def)
  have bc: "bucket_cache demo_world = Some cache_new" by (simp add: demo_world_def)
  have key: "entry_key (bucket_id demo_ctl) ''ab'' \<lparr>entry_data = [2], entry_kind = Png, entry_sizing_id = 3\<rparr> =
      entry_key (bucket_id demo_ctl) ''ab'' \<lparr>entry_data = [1], entry_kind = Png, entry_sizing_id = 3\<rparr>"
    by (simp add: entry_key_def)
  have diff: "entry_data \<lparr>entry_data = [1::8 word], entry_kind = Png, entry_sizing_id = 3\<rparr> \<noteq>
      entry_data \<lparr>entry_data = [2], entry_kind = Png, entry_sizing_id = 3\<rparr>" by simp
  from Fanout.fanout_shared_key_breaks_agreement [OF demo_contract fails ok bc key diff]
  show ?thesis by (simp add: demo_ctl_def)
qed

section \<open>Across components: the specification's end-to-end scenario\<close>

text \<open>
  The entries of an ahead-of-time upload: every kind at every sizing. A block of
  one sizing has one entry per kind, so each key of the block is its entry's; with
  distinct sizing ids each key of the whole upload is a single entry's.
\<close>

lemma block_lookup:
  assumes "distinct ks" and "k \<in> set ks"
  shows "store_all b i (map (\<lambda>fmt. \<lparr>entry_data = g fmt, entry_kind = fmt, entry_sizing_id = s\<rparr>) ks) M (b, i, k, s)
    = Some (g k)"
proof -
  let ?e = "\<lparr>entry_data = g k, entry_kind = k, entry_sizing_id = s\<rparr>"
  have "?e \<in> set (map (\<lambda>fmt. \<lparr>entry_data = g fmt, entry_kind = fmt, entry_sizing_id = s\<rparr>) ks)"
    using assms(2) by simp
  moreover have "\<forall>e' \<in> set (map (\<lambda>fmt. \<lparr>entry_data = g fmt, entry_kind = fmt, entry_sizing_id = s\<rparr>) ks).
      entry_key b i e' = entry_key b i ?e \<longrightarrow> e' = ?e"
    by (auto simp: entry_key_def)
  ultimately show ?thesis using store_all_lookup by (fastforce simp: entry_key_def)
qed

lemma aot_entries_stored:
  assumes dist: "distinct (sizing_preset_ids cfg)" and mem: "(s, dims) \<in> set (aot_sizings cfg)"
  shows "store_all b i (concat (map (\<lambda>(sizing_id, dims). map (\<lambda>fmt. \<lparr>entry_data = enc kind fmt dims data,
      entry_kind = fmt, entry_sizing_id = sizing_id\<rparr>) variants) (aot_sizings cfg))) M (b, i, k, s)
    = Some (enc kind k dims data)"
proof -
  let ?es = "concat (map (\<lambda>(sizing_id, dims). map (\<lambda>fmt. \<lparr>entry_data = enc kind fmt dims data,
      entry_kind = fmt, entry_sizing_id = sizing_id\<rparr>) variants) (aot_sizings cfg))"
  let ?e = "\<lparr>entry_data = enc kind k dims data, entry_kind = k, entry_sizing_id = s\<rparr>"
  have "map fst (aot_sizings cfg) = sizing_preset_ids cfg"
    by (simp add: aot_sizings_def sizing_preset_ids_def case_prod_beta comp_def)
  with dist have dist': "distinct (map fst (aot_sizings cfg))" by simp
  have e: "?e \<in> set ?es" using mem by force
  have "\<forall>e' \<in> set ?es. entry_key b i e' = entry_key b i ?e \<longrightarrow> e' = ?e"
  proof (intro ballI impI)
    fix e' assume "e' \<in> set ?es" and key: "entry_key b i e' = entry_key b i ?e"
    then obtain s' dims' k' where sd: "(s', dims') \<in> set (aot_sizings cfg)"
      and e': "e' = \<lparr>entry_data = enc kind k' dims' data, entry_kind = k', entry_sizing_id = s'\<rparr>"
      by auto
    with key have "k' = k" "s' = s" by (simp_all add: entry_key_def)
    with eq_key_imp_eq_value [OF dist' mem] sd have "dims' = dims" by simp
    with e' \<open>k' = k\<close> \<open>s' = s\<close> show "e' = ?e" by simp
  qed
  from store_all_lookup [OF e this] show ?thesis by (simp add: entry_key_def)
qed

text \<open>
  C33: after an ahead-of-time upload to a bucket whose sizing ids are distinct and
  which has no default preset, a fetch without preset returns the original-size
  encoding at sizing id 0, and a fetch by the name of any configured preset (other
  than the reserved \<open>original\<close>) returns that preset's encoding under the preset's
  sizing id, both in the store format and without error.
\<close>

theorem aot_presets_fetchable:
  assumes contract: "storage_contract (storage ctl) \<alpha>" and reliable: "fetch_reliable (storage ctl)"
    and inv: "world_inv (bucket_id ctl) \<alpha> w" and cb: "cache_backend w \<noteq> Some GlobalCache"
    and aot: "mode (config ctl) = Aot" and pl: "pipeline ctl = aot_pipeline enc (config ctl)"
    and admit: "get_optional_permit (global_limiter ctl) (limiter ctl) = Some (Inr pm)"
    and uploaded: "upload D ctl kind data w = Some (Inr info, w1)"
    and dist: "distinct (sizing_preset_ids (config ctl))"
    and nodef: "default_serving_preset (config ctl) = None"
  shows "(\<exists>w2. fetch ctl (info_image_id info) (original_image_store_format (formats (config ctl))) None c w1 =
       Some (Inr (Some \<lparr>entry_data = enc kind (original_image_store_format (formats (config ctl))) None data,
                        entry_kind = original_image_store_format (formats (config ctl)),
                        entry_sizing_id = 0\<rparr>), w2)) \<and>
    (\<forall>(name, dims) \<in> set (presets (config ctl)). name \<noteq> ''original'' \<longrightarrow>
       (\<exists>w2. fetch ctl (info_image_id info) (original_image_store_format (formats (config ctl))) (Some name) c w1 =
          Some (Inr (Some \<lparr>entry_data = enc kind (original_image_store_format (formats (config ctl))) (Some dims) data,
                           entry_kind = original_image_store_format (formats (config ctl)),
                           entry_sizing_id = crc_hash name\<rparr>), w2)))"
proof -
  let ?cfg = "config ctl" and ?b = "bucket_id ctl" and ?i = "info_image_id info"
  let ?fmt = "original_image_store_format (formats ?cfg)"
  let ?es = "concat (map (\<lambda>(sizing_id, dims). map (\<lambda>fmt. \<lparr>entry_data = enc kind fmt dims data,
      entry_kind = fmt, entry_sizing_id = sizing_id\<rparr>) variants) (aot_sizings ?cfg))"
  have up: "on_upload (pipeline ctl) kind data = Inr \<lparr>to_store = ?es, response = None\<rparr>"
    by (simp add: pl aot_pipeline_def)
  from uploaded admit have ub: "upload_body D ctl kind data w = (Inr info, w1)"
    by (simp add: upload_def with_permit_admitted)
  note ok = upload_body_ok [OF contract up ub]
  then have M1: "\<alpha> (storage_state w1) = store_all ?b ?i ?es (\<alpha> (storage_state w))"
    and inv1: "world_inv ?b \<alpha> w1"
    using inv cb by auto
  have stored: "\<alpha> (storage_state w1) (?b, ?i, ?fmt, s) = Some (enc kind ?fmt dims data)"
    if "(s, dims) \<in> set (aot_sizings ?cfg)" for s dims
    using M1 aot_entries_stored [OF dist that] by simp
  have "\<alpha> (storage_state w1) (?b, ?i, ?fmt, resolve_sizing_id ?cfg None) = Some (enc kind ?fmt None data)"
    using stored [of 0 None] nodef by (simp add: resolve_sizing_id_def aot_sizings_def)
  from aot_fetch_returns_stored [OF contract reliable inv1 aot admit this, of c]
  have orig: "\<exists>w2. fetch ctl ?i ?fmt None c w1 = Some (Inr (Some \<lparr>entry_data = enc kind ?fmt None data,
      entry_kind = ?fmt, entry_sizing_id = 0\<rparr>), w2)"
    using nodef by (auto simp: resolve_sizing_id_def)
  have "\<exists>w2. fetch ctl ?i ?fmt (Some name) c w1 =
      Some (Inr (Some \<lparr>entry_data = enc kind ?fmt (Some dims) data, entry_kind = ?fmt,
                       entry_sizing_id = crc_hash name\<rparr>), w2)"
    if nd: "(name, dims) \<in> set (presets ?cfg)" and no: "name \<noteq> ''original''" for name dims
  proof -
    have "(crc_hash name, Some dims) \<in> set (aot_sizings ?cfg)"
      using nd by (force simp: aot_sizings_def)
    from stored [OF this] no
    have "\<alpha> (storage_state w1) (?b, ?i, ?fmt, resolve_sizing_id ?cfg (Some name)) = Some (enc kind ?fmt (Some dims) data)"
      by (simp add: resolve_sizing_id_def)
    from aot_fetch_returns_stored [OF contract reliable inv1 aot admit this, of c] no
    show ?thesis by (auto simp: resolve_sizing_id_def)
  qed
  with orig show ?thesis by blast
qed

theorem aot_presets_fetchable_witness:
  "\<exists>info w1. upload id demo_ctl_spec Png [97, 98, 99] demo_world = Some (Inr info, w1) \<and>
     (\<exists>w2. fetch demo_ctl_spec (info_image_id info) Png None None w1 =
        Some (Inr (Some \<lparr>entry_data = [97, 98, 99], entry_kind = Png, entry_sizing_id = 0\<rparr>), w2)) \<and>
     (\<exists>w3. fetch demo_ctl_spec (info_image_id info) Png (Some ''thumb'') None w1 =
        Some (Inr (Some \<lparr>entry_data = [97], entry_kind = Png, entry_sizing_id = 0xEE143C8D\<rparr>), w3))"
proof -
  have cfg: "config demo_ctl_spec = demo_thumb_config"
    by (simp add: demo_ctl_spec_def demo_ctl_thumb_def)
  have contract: "storage_contract (storage demo_ctl_spec) mem_contents"
    by (simp add: demo_ctl_spec_def demo_ctl_thumb_def demo_ctl_def mem_backend_contract)
  have reliable: "fetch_reliable (storage demo_ctl_spec)"
    by (simp add: demo_ctl_spec_def demo_ctl_thumb_def demo_ctl_def mem_backend_reliable)
  have inv: "world_inv (bucket_id demo_ctl_spec) mem_contents demo_world"
    using demo_world_inv by (simp add: demo_ctl_spec_def demo_ctl_thumb_def)
  have cb: "cache_backend demo_world \<noteq> Some GlobalCache" by (simp add: demo_defs cache_backend_def)
  have aot: "mode (config demo_ctl_spec) = Aot" by (simp add: cfg demo_thumb_config_def demo_config_def)
  have pl: "pipeline demo_ctl_spec = aot_pipeline demo_encode (config demo_ctl_spec)"
    by (simp add: demo_ctl_spec_def demo_ctl_thumb_def)
  have admit: "get_optional_permit (global_limiter demo_ctl_spec) (limiter demo_ctl_spec) = Some (Inr None)"
    by (simp add: demo_ctl_spec_def demo_ctl_thumb_def demo_ctl_def get_optional_permit_def)
  obtain info w1 where uploaded: "upload id demo_ctl_spec Png [97, 98, 99] demo_world = Some (Inr info, w1)"
    by (simp add: demo_ctl_spec_def demo_ctl_thumb_def demo_thumb_config_def demo_defs run_defs
        aot_pipeline_def aot_sizings_def variants_def fanout_task_def demo_thumb_id demo_encode_def)
  have ids: "sizing_preset_ids (config demo_ctl_spec) = [0, 0xEE143C8D]"
    by (simp add: cfg demo_thumb_config_def demo_config_def sizing_preset_ids_def demo_thumb_id)
  then have dist: "distinct (sizing_preset_ids (config demo_ctl_spec))" by simp
  have nodef: "default_serving_preset (config demo_ctl_spec) = None"
    by (simp add: cfg demo_thumb_config_def demo_config_def)
  note c = aot_presets_fetchable [OF contract reliable inv cb aot pl admit uploaded dist nodef, of None]
  have fmt: "original_image_store_format (formats (config demo_ctl_spec)) = Png"
    by (simp add: cfg demo_thumb_config_def demo_config_def)
  have th: "(''thumb'', (64, 64)) \<in> set (presets (config demo_ctl_spec))"
    by (simp add: cfg demo_thumb_config_def)
  from c th fmt uploaded show ?thesis
    by (auto simp: demo_encode_def demo_thumb_id)
qed


section \<open>Across components: a preset with sizing id 0\<close>

text \<open>
  C25: sizing ids are CRC-32 hashes of preset names, and nothing keeps a preset
  away from the original's id 0. When the last preset's name hashes to 0, an
  ahead-of-time upload produces, for every kind, two entries under the same variant
  key: the original-size encoding and the preset's. Which of the two the storage
  keeps depends on the order in which the fan-out's tasks finish: there is a
  complete schedule after which the storage holds the preset's encoding under the
  original's key (the original is lost) and one after which it holds the original
  (the preset's variant is lost). This needs writes that do not fail.
\<close>

theorem preset_hashing_to_zero_races_original:
  assumes contract: "storage_contract (storage ctl) \<alpha>" and fails: "store_fails (storage ctl) F"
    and ok: "\<forall>K. \<not> F (storage_state w) K"
    and pl: "pipeline ctl = aot_pipeline enc (config ctl)"
    and ps: "presets (config ctl) = ps @ [(name, dims)]" and z: "crc_hash name = 0"
    and up: "on_upload (pipeline ctl) kind data = Inr res"
  shows "(\<exists>sched ts w1. run_schedule ctl i (to_store res) sched w = (ts, w1) \<and> fanout_complete ts \<and>
       \<alpha> (storage_state w1) (bucket_id ctl, i, k, 0) = Some (enc kind k (Some dims) data)) \<and>
    (\<exists>sched ts w2. run_schedule ctl i (to_store res) sched w = (ts, w2) \<and> fanout_complete ts \<and>
       \<alpha> (storage_state w2) (bucket_id ctl, i, k, 0) = Some (enc kind k None data))"
proof -
  let ?b = "bucket_id ctl" and ?es = "to_store res"
  let ?blk = "\<lambda>(sizing_id, dims). map (\<lambda>fmt. \<lparr>entry_data = enc kind fmt dims data, entry_kind = fmt,
      entry_sizing_id = sizing_id\<rparr>) variants"
  let ?first = "map (\<lambda>fmt. \<lparr>entry_data = enc kind fmt None data, entry_kind = fmt, entry_sizing_id = 0\<rparr>) variants"
  let ?last = "map (\<lambda>fmt. \<lparr>entry_data = enc kind fmt (Some dims) data, entry_kind = fmt, entry_sizing_id = 0\<rparr>) variants"
  let ?mid = "concat (map ?blk (map (\<lambda>(name, dims). (crc_hash name, Some dims)) ps))"
  have es: "?es = ?first @ ?mid @ ?last"
    using up by (auto simp: pl ps z aot_pipeline_def aot_sizings_def)
  have ix: "distinct [0..<length ?es]" "set [0..<length ?es] = {..<length ?es}"
    "distinct (rev [0..<length ?es])" "set (rev [0..<length ?es]) = {..<length ?es}"
    by auto
  obtain ts1 w1 where r1: "run_schedule ctl i ?es (in_order [0..<length ?es]) w = (ts1, w1)"
    and c1: "fanout_complete ts1"
    and M1: "\<alpha> (storage_state w1) = store_all ?b i ?es (\<alpha> (storage_state w))"
    using fanout_in_order_store_all [OF contract fails ok ix(1,2), where i = i] by (auto simp: map_nth)
  obtain ts2 w2 where r2: "run_schedule ctl i ?es (in_order (rev [0..<length ?es])) w = (ts2, w2)"
    and c2: "fanout_complete ts2"
    and M2: "\<alpha> (storage_state w2) = store_all ?b i (rev ?es) (\<alpha> (storage_state w))"
    using fanout_in_order_store_all [OF contract fails ok ix(3,4), where i = i] by (auto simp: rev_map [symmetric] map_nth)
  have "\<alpha> (storage_state w1) (?b, i, k, 0) = Some (enc kind k (Some dims) data)"
    unfolding M1 es store_all_append by (rule block_lookup) (simp_all add: distinct_variants)
  moreover have "\<alpha> (storage_state w2) (?b, i, k, 0) = Some (enc kind k None data)"
    unfolding M2 es rev_append store_all_append rev_map by (rule block_lookup) (simp_all add: distinct_variants)
  ultimately show ?thesis using r1 c1 r2 c2 by blast
qed

theorem preset_hashing_to_zero_races_original_witness:
  "(\<exists>sched ts w1. run_schedule demo_ctl_zero ''ab'' (to_store (projr (on_upload (pipeline demo_ctl_zero) Png [97, 98, 99])))
       sched demo_world = (ts, w1) \<and> fanout_complete ts \<and>
       mem_contents (storage_state w1) (1, ''ab'', Png, 0) = Some [97]) \<and>
   (\<exists>sched ts w2. run_schedule demo_ctl_zero ''ab'' (to_store (projr (on_upload (pipeline demo_ctl_zero) Png [97, 98, 99])))
       sched demo_world = (ts, w2) \<and> fanout_complete ts \<and>
       mem_contents (storage_state w2) (1, ''ab'', Png, 0) = Some [97, 98, 99])"
proof -
  have contract: "storage_contract (storage demo_ctl_zero) mem_contents"
    by (simp add: demo_ctl_zero_def demo_ctl_def mem_backend_contract)
  have fails: "store_fails (storage demo_ctl_zero) (\<lambda>st key. key \<in> set (failing st))"
    by (simp add: demo_ctl_zero_def demo_ctl_def mem_backend_store_fails)
  have ok: "\<forall>K. \<not> K \<in> set (failing (storage_state demo_world))" by (simp add: demo_world_def)
  have pl: "pipeline demo_ctl_zero = aot_pipeline demo_encode (config demo_ctl_zero)"
    by (simp add: demo_ctl_zero_def)
  have ps: "presets (config demo_ctl_zero) = [] @ [(''ikklkacnce'', (64, 64))]"
    by (simp add: demo_ctl_zero_def demo_zero_config_def demo_config_def)
  obtain res where up: "on_upload (pipeline demo_ctl_zero) Png [97, 98, 99] = Inr res"
    by (simp add: pl aot_pipeline_def)
  have b: "bucket_id demo_ctl_zero = 1" by (simp add: demo_ctl_zero_def demo_ctl_def)
  from preset_hashing_to_zero_races_original [OF contract fails ok pl ps demo_zero_id up,
      of "''ab''" Png] up b
  show ?thesis by (simp add: demo_encode_def)
qed

end
